theory Spec2Isabelle
  imports Complex_Main "HOL-Library.Sublist"
begin

section \<open>The world the downloader runs in\<close>

text \<open>
  The program of \<^verbatim>\<open>src/linkedin/download.py\<close> talks to a network, sleeps, and creates and
  removes temporary files. These effects are made explicit: every function that has an
  effect takes a \<open>world\<close> and returns the new one, and an exception is the \<open>Inl\<close> of a sum.

  Exceptions are values of \<open>error\<close>. The two classes that \<^verbatim>\<open>trying_get\<close> catches carry a
  number that identifies the exception object, so that "the same error is raised again" can
  be said.
\<close>

datatype error =
    ConnectionError nat
  | MaxRetryError nat
  | OtherError nat
  | ValueError
  | IndexError
  | AttributeError
  | ArgumentError string

text \<open>\<^verbatim>\<open>except (requests.exceptions.ConnectionError, MaxRetryError) as e\<close>\<close>

fun is_connection_error :: "error \<Rightarrow> bool" where
  "is_connection_error (ConnectionError _) = True"
| "is_connection_error (MaxRetryError _) = True"
| "is_connection_error _ = False"

record cookie =
  cookie_name :: string
  cookie_value :: string

text \<open>The attributes of a \<^verbatim>\<open>requests.Response\<close> that the program reads.\<close>

record response =
  resp_url :: string
  resp_text :: string
  resp_content :: string
  resp_cookies :: "cookie list"

text \<open>The keyword arguments that \<^verbatim>\<open>trying_get\<close> hands on to \<^verbatim>\<open>requests.get\<close>.\<close>

record kwargs =
  kw_headers :: "(string \<times> string) list"
  kw_cookies :: "cookie list"

definition no_kwargs :: kwargs where
  "no_kwargs = \<lparr>kw_headers = [], kw_cookies = []\<rparr>"

datatype get_outcome = Ok response | Fails error

text \<open>
  The network is an oracle: \<open>net k url kw\<close> is what the \<open>k\<close>-th call of \<^verbatim>\<open>requests.get\<close>
  of the whole run does when it asks for \<open>url\<close> with the keyword arguments \<open>kw\<close>.
\<close>

type_synonym network = "nat \<Rightarrow> string \<Rightarrow> kwargs \<Rightarrow> get_outcome"

text \<open>
  The log of what the program has done to the outside, in the order in which it was done:
  a request sent to a URL; a warning logged (the URL, the number of the failed attempt,
  \<open>max_attempts\<close>, \<open>wait\<close>); a pause of so many seconds; a temporary name taken, with its
  suffix; a fragment file written; a clip opened on a fragment file; a clip closed; a
  fragment file removed; a temporary audio file written; that file removed; so many audio
  samples appended to the output.
\<close>

datatype event =
    Get string
  | Warn string int int int
  | Sleep int
  | Mktemp nat string
  | WriteFile nat
  | OpenClip nat
  | CloseClip nat
  | Remove nat
  | WriteAudio nat
  | RemoveAudio nat
  | AppendAudio nat

record world =
  requests :: nat
  tmp_names :: nat
  events :: "event list"

definition emit :: "event \<Rightarrow> world \<Rightarrow> world" where
  "emit ev w = w\<lparr>events := events w @ [ev]\<rparr>"

definition issue_get :: "string \<Rightarrow> world \<Rightarrow> world" where
  "issue_get url w = emit (Get url) (w\<lparr>requests := Suc (requests w)\<rparr>)"

definition MAX_ATTEMPTS :: int where
  "MAX_ATTEMPTS = 10"

definition WAIT :: int where
  "WAIT = 10"

definition DEF_QUALITY :: int where
  "DEF_QUALITY = 3200000"

section \<open>\<^verbatim>\<open>trying_get\<close>\<close>

text \<open>
  \<^verbatim>\<open>
  attempts = max_attempts
  while attempts:
      try:
          return requests.get(url, **kwargs)
      except (requests.exceptions.ConnectionError, MaxRetryError) as e:
          attempts -= 1
          log.warning(...)
          if not attempts:
              raise e
          sleep(wait)
  \<close>
  \<^verbatim>\<open>while attempts\<close> runs as long as the integer is not zero, so a negative counter never
  stops the loop by itself: the loop is a partial function, and \<open>None\<close> is "does not
  return". A call that falls out of the loop returns Python's \<^verbatim>\<open>None\<close>, here
  \<open>Inr None\<close>. \<^verbatim>\<open>time.sleep\<close> raises \<^verbatim>\<open>ValueError\<close> for a negative number of seconds.
\<close>

partial_function (option) trying_get_loop ::
  "network \<Rightarrow> string \<Rightarrow> kwargs \<Rightarrow> int \<Rightarrow> int \<Rightarrow> int \<Rightarrow> world
     \<Rightarrow> ((error + response option) \<times> world) option"
where
  "trying_get_loop net url kw max_attempts wait attempts w =
     (if attempts = 0 then Some (Inr None, w)
      else
        (case net (requests w) url kw of
           Ok r \<Rightarrow> Some (Inr (Some r), issue_get url w)
         | Fails e \<Rightarrow>
             if is_connection_error e then
               (let attempts' = attempts - 1;
                    w' = emit (Warn url (max_attempts - attempts') max_attempts wait)
                           (issue_get url w)
                in if attempts' = 0 then Some (Inl e, w')
                   else if wait < 0 then Some (Inl ValueError, w')
                   else trying_get_loop net url kw max_attempts wait attempts'
                          (emit (Sleep wait) w'))
             else Some (Inl e, issue_get url w)))"

declare trying_get_loop.simps [code]

definition trying_get ::
  "network \<Rightarrow> string \<Rightarrow> kwargs \<Rightarrow> int \<Rightarrow> int \<Rightarrow> world
     \<Rightarrow> ((error + response option) \<times> world) option"
where
  "trying_get net url kw max_attempts wait w =
     trying_get_loop net url kw max_attempts wait max_attempts w"

subsection \<open>What a run of \<^verbatim>\<open>trying_get\<close> leaves in the event log\<close>

text \<open>
  One failed attempt that is followed by another one: the request, the warning with the
  number \<open>i\<close> of the attempt, the pause.
\<close>

definition failed_round :: "string \<Rightarrow> int \<Rightarrow> int \<Rightarrow> int \<Rightarrow> event list" where
  "failed_round url max_attempts wait i = [Get url, Warn url i max_attempts wait, Sleep wait]"

text \<open>The log of a call whose \<open>max_attempts\<close> attempts all fail.\<close>

definition exhausted_events :: "string \<Rightarrow> int \<Rightarrow> int \<Rightarrow> event list" where
  "exhausted_events url max_attempts wait =
     concat (map (\<lambda>k. failed_round url max_attempts wait (int k + 1)) [0..<nat max_attempts - 1])
       @ [Get url, Warn url max_attempts max_attempts wait]"

text \<open>The log of a call that fails \<open>k\<close> times and then gets its response.\<close>

definition recovered_events :: "string \<Rightarrow> int \<Rightarrow> int \<Rightarrow> nat \<Rightarrow> event list" where
  "recovered_events url max_attempts wait k =
     concat (map (\<lambda>i. failed_round url max_attempts wait (int i + 1)) [0..<k]) @ [Get url]"

fun is_get :: "event \<Rightarrow> bool" where
  "is_get (Get _) = True"
| "is_get _ = False"

fun is_sleep :: "event \<Rightarrow> bool" where
  "is_sleep (Sleep _) = True"
| "is_sleep _ = False"

subsection \<open>Sample worlds and networks\<close>

definition world0 :: world where
  "world0 = \<lparr>requests = 0, tmp_names = 0, events = []\<rparr>"

definition empty_page :: "string \<Rightarrow> response" where
  "empty_page url = \<lparr>resp_url = url, resp_text = [], resp_content = [], resp_cookies = []\<rparr>"

text \<open>A network on which every request fails with a fresh connection error.\<close>

definition net_down :: network where
  "net_down k url kw = Fails (ConnectionError k)"

text \<open>A network that answers every request at once.\<close>

definition net_up :: network where
  "net_up k url kw = Ok (empty_page url)"

text \<open>A network whose first two requests fail and whose later ones are answered.\<close>

definition net_flaky :: network where
  "net_flaky k url kw = (if k < 2 then Fails (MaxRetryError k) else Ok (empty_page url))"

section \<open>Strings\<close>

text \<open>
  Python's \<^verbatim>\<open>str\<close> is modelled by \<open>string\<close>. The documents the program reads are taken to
  be ASCII, for which \<^verbatim>\<open>bytes.decode('utf-8')\<close> changes nothing.
\<close>

text \<open>\<^verbatim>\<open>s.startswith(p)\<close>\<close>

definition startswith :: "string \<Rightarrow> string \<Rightarrow> bool" where
  "startswith s p = prefix p s"

text \<open>\<^verbatim>\<open>p in s\<close> for two strings\<close>

fun contains :: "string \<Rightarrow> string \<Rightarrow> bool" where
  "contains [] p = (p = [])"
| "contains (c # cs) p = (prefix p (c # cs) \<or> contains cs p)"

text \<open>
  \<^verbatim>\<open>s.split(sep)\<close> for a separator of one character: the pieces between the separators,
  the empty ones too, and \<open>['']\<close> for the empty string.
\<close>

fun split_on :: "char \<Rightarrow> string \<Rightarrow> string list" where
  "split_on sep [] = [] # []"
| "split_on sep (c # cs) =
     (if c = sep then [] # split_on sep cs
      else (case split_on sep cs of
              [] \<Rightarrow> [c] # []
            | piece # pieces \<Rightarrow> (c # piece) # pieces))"

definition newline :: char where
  "newline = CHR 0x0A"

definition carriage_return :: char where
  "carriage_return = CHR 0x0D"

text \<open>\<^verbatim>\<open>s.replace('\r', '').split('\n')\<close>\<close>

definition lines_of :: "string \<Rightarrow> string list" where
  "lines_of s = split_on newline (filter (\<lambda>c. c \<noteq> carriage_return) s)"

text \<open>\<^verbatim>\<open>sep.join(xs)\<close>\<close>

fun join :: "string \<Rightarrow> string list \<Rightarrow> string" where
  "join sep [] = []"
| "join sep [x] = x"
| "join sep (x # y # ys) = x @ sep @ join sep (y # ys)"

text \<open>\<^verbatim>\<open>str(n)\<close> for an integer: its decimal digits, after a minus sign if it is negative.\<close>

definition digit_char :: "nat \<Rightarrow> char" where
  "digit_char d = ''0123456789'' ! d"

fun str_nat :: "nat \<Rightarrow> string" where
  "str_nat n = (if n < 10 then [digit_char n] else str_nat (n div 10) @ [digit_char (n mod 10)])"

declare str_nat.simps [simp del]

definition str_int :: "int \<Rightarrow> string" where
  "str_int i = (if i < 0 then CHR ''-'' # str_nat (nat (- i)) else str_nat (nat i))"

section \<open>\<^verbatim>\<open>Downloader.get_quality\<close>\<close>

text \<open>
  \<^verbatim>\<open>re.sub(r'QualityLevels\(|\).*$', '', line)\<close> on a string without a line break: scanning
  from the left, every \<^verbatim>\<open>QualityLevels(\<close> is dropped, and so is everything from the
  first \<^verbatim>\<open>)\<close> that is met on.
\<close>

fun strip_quality :: "string \<Rightarrow> string" where
  "strip_quality [] = []"
| "strip_quality (c # cs) =
     (if prefix ''QualityLevels('' (c # cs) then strip_quality (drop 13 cs)
      else if c = CHR '')'' then []
      else c # strip_quality cs)"

text \<open>
  \<^verbatim>\<open>re.sub('/[^/]+$', f'/{line}', url)\<close>: if something follows the last slash of \<open>url\<close>,
  that slash and what follows it are replaced by a slash and the line; a URL with no slash,
  or with nothing after its last slash, stays as it is. The line is taken as it stands,
  which is what \<^verbatim>\<open>re.sub\<close> does with a replacement that has no backslash in it.
\<close>

definition replace_last_segment :: "string \<Rightarrow> string \<Rightarrow> string" where
  "replace_last_segment url line =
     (case dropWhile (\<lambda>c. c \<noteq> CHR ''/'') (rev url) of
        [] \<Rightarrow> url
      | slash # front \<Rightarrow>
          if takeWhile (\<lambda>c. c \<noteq> CHR ''/'') (rev url) = [] then url
          else rev front @ CHR ''/'' # line)"

text \<open>The message of the \<^verbatim>\<open>ArgumentError\<close>, from the sorted list of bitrates.\<close>

definition quality_message :: "int list \<Rightarrow> string" where
  "quality_message available =
     ''Incorrect quality level. The available quality levels are:'' @ [newline] @ ''  ''
       @ join ([newline] @ ''  '') (map str_int available)"

text \<open>
  The loop over the lines. \<open>int_of\<close> is Python's \<^verbatim>\<open>int\<close> on a string, \<open>None\<close> where it
  raises \<^verbatim>\<open>ValueError\<close>.
  \<^verbatim>\<open>
  for line in lines:
      if line.startswith('QualityLevels'):
          available_qualities.append(int(re.sub(r'QualityLevels\(|\).*$', '', line)))
          if line.startswith(f'QualityLevels({quality})/Manifest'):
              return re.sub('/[^/]+$', f'/{line}', url)
  available_qualities.sort()
  available_qualities = "\n  ".join([str(q) for q in available_qualities])
  raise ArgumentError(f'Incorrect quality level. The available quality levels are:\n  {available_qualities}')
  \<close>
\<close>

fun get_quality_lines ::
  "(string \<Rightarrow> int option) \<Rightarrow> string \<Rightarrow> int \<Rightarrow> string list \<Rightarrow> int list \<Rightarrow> error + string"
where
  "get_quality_lines int_of url quality [] available_qualities =
     Inl (ArgumentError (quality_message (sort available_qualities)))"
| "get_quality_lines int_of url quality (line # lines) available_qualities =
     (if startswith line ''QualityLevels'' then
        (case int_of (strip_quality line) of
           None \<Rightarrow> Inl ValueError
         | Some q \<Rightarrow>
             if startswith line (''QualityLevels('' @ str_int quality @ '')/Manifest'')
             then Inr (replace_last_segment url line)
             else get_quality_lines int_of url quality lines (available_qualities @ [q]))
      else get_quality_lines int_of url quality lines available_qualities)"

text \<open>
  The method reads the retry policy from \<^verbatim>\<open>self._max_attempts\<close> and \<^verbatim>\<open>self._wait\<close>, the
  only attributes of the object it uses: they are its first two arguments here.
  \<^verbatim>\<open>r.content\<close> of the \<^verbatim>\<open>None\<close> that \<^verbatim>\<open>trying_get\<close> returns for zero attempts raises
  \<^verbatim>\<open>AttributeError\<close>.
\<close>

definition get_quality ::
  "(string \<Rightarrow> int option) \<Rightarrow> network \<Rightarrow> int \<Rightarrow> int \<Rightarrow> string \<Rightarrow> int \<Rightarrow> world
     \<Rightarrow> ((error + string) \<times> world) option"
where
  "get_quality int_of net self_max_attempts self_wait url quality w =
     (case trying_get net url no_kwargs self_max_attempts self_wait w of
        None \<Rightarrow> None
      | Some (Inl e, w') \<Rightarrow> Some (Inl e, w')
      | Some (Inr None, w') \<Rightarrow> Some (Inl AttributeError, w')
      | Some (Inr (Some r), w') \<Rightarrow>
          Some (get_quality_lines int_of url quality (lines_of (resp_content r)) [], w'))"

subsection \<open>Reading the outcome of \<^verbatim>\<open>get_quality\<close>\<close>

text \<open>A line of the listing that names a quality level.\<close>

definition quality_line :: "string \<Rightarrow> bool" where
  "quality_line line = startswith line ''QualityLevels''"

text \<open>The line that the method takes for the requested quality.\<close>

definition selects :: "int \<Rightarrow> string \<Rightarrow> bool" where
  "selects quality line =
     startswith line (''QualityLevels('' @ str_int quality @ '')/Manifest'')"

text \<open>The bitrates that the listing names, in the order of its lines.\<close>

definition listed_bitrates :: "(string \<Rightarrow> int option) \<Rightarrow> string list \<Rightarrow> int list" where
  "listed_bitrates int_of lines =
     map (\<lambda>line. the (int_of (strip_quality line))) (filter quality_line lines)"

subsection \<open>A decimal reader and a sample listing\<close>

text \<open>
  Python's \<^verbatim>\<open>int\<close> on the strings that \<^verbatim>\<open>str\<close> makes: digits, after a minus sign or not.
  Every other string is refused here.
\<close>

fun read_digits :: "nat \<Rightarrow> string \<Rightarrow> nat option" where
  "read_digits acc [] = Some acc"
| "read_digits acc (c # cs) =
     (if (48::nat) \<le> of_char c \<and> (of_char c :: nat) \<le> 57
      then read_digits (10 * acc + (of_char c - 48)) cs
      else None)"

fun decimal_int :: "string \<Rightarrow> int option" where
  "decimal_int [] = None"
| "decimal_int (c # cs) =
     (if c = CHR ''-'' then (if cs = [] then None else map_option (\<lambda>n. - int n) (read_digits 0 cs))
      else map_option int (read_digits 0 (c # cs)))"

definition three_levels :: string where
  "three_levels =
     ''#EXTM3U'' @ [carriage_return, newline]
     @ ''QualityLevels(1200000)/Manifest(video,format=m3u8-aapl)'' @ [carriage_return, newline]
     @ ''QualityLevels(5000000)/Manifest(video,format=m3u8-aapl)'' @ [newline]
     @ ''QualityLevels(3200000)/Manifest(video,format=m3u8-aapl)'' @ [newline]"

definition master_url :: string where
  "master_url = ''https://host/video.ism/manifest(format=m3u8-aapl)''"

definition net_three_levels :: network where
  "net_three_levels k url kw = Ok ((empty_page url)\<lparr>resp_content := three_levels\<rparr>)"

text \<open>A listing that names the level 3200000 without a manifest of its own.\<close>

definition bare_level :: string where
  "bare_level =
     ''QualityLevels(1200000)/Manifest(video,format=m3u8-aapl)'' @ [newline]
     @ ''QualityLevels(3200000)''"

definition net_bare_level :: network where
  "net_bare_level k url kw = Ok ((empty_page url)\<lparr>resp_content := bare_level\<rparr>)"

section \<open>The fragment catalog of \<^verbatim>\<open>Downloader.__init__\<close>\<close>

text \<open>
  Seconds are real numbers here: the rounding of Python's floating-point addition is not
  modelled. \<open>float_of\<close> is Python's \<^verbatim>\<open>float\<close> on a string, \<open>None\<close> where it raises
  \<^verbatim>\<open>ValueError\<close>.
\<close>

text \<open>
  \<^verbatim>\<open>re.sub('Manifest.*', '', url)\<close> on a URL without a line break: the URL up to the first
  \<^verbatim>\<open>Manifest\<close>.
\<close>

fun strip_manifest :: "string \<Rightarrow> string" where
  "strip_manifest [] = []"
| "strip_manifest (c # cs) =
     (if prefix ''Manifest'' (c # cs) then [] else c # strip_manifest cs)"

text \<open>
  \<^verbatim>\<open>float(line.split(':')[1].split(',')[0])\<close>. An index that a list does not have raises
  \<^verbatim>\<open>IndexError\<close>.
\<close>

definition extinf_seconds :: "(string \<Rightarrow> real option) \<Rightarrow> string \<Rightarrow> error + real" where
  "extinf_seconds float_of line =
     (case split_on CHR '':'' line of
        _ # field # _ \<Rightarrow>
          (case split_on CHR '','' field of
             [] \<Rightarrow> Inl IndexError
           | number # _ \<Rightarrow>
               (case float_of number of None \<Rightarrow> Inl ValueError | Some x \<Rightarrow> Inr x))
      | _ \<Rightarrow> Inl IndexError)"

text \<open>A list comprehension whose element expression may raise: the first error ends it.\<close>

fun collect :: "('a \<Rightarrow> error + 'b) \<Rightarrow> 'a list \<Rightarrow> error + 'b list" where
  "collect f [] = Inr []"
| "collect f (x # xs) =
     (case f x of
        Inl e \<Rightarrow> Inl e
      | Inr y \<Rightarrow> (case collect f xs of Inl e \<Rightarrow> Inl e | Inr ys \<Rightarrow> Inr (y # ys)))"

text \<open>\<^verbatim>\<open>sum(xs)\<close>: the elements are added to 0 from the left.\<close>

definition py_sum :: "real list \<Rightarrow> real" where
  "py_sum xs = foldl (+) 0 xs"

record catalog =
  cat_paths :: "string list"
  cat_times :: "real list"
  cat_duration :: real

text \<open>
  \<^verbatim>\<open>
  raw_text = r.text.replace('\r', '')
  lines = raw_text.split('\n')
  download_url = re.sub('Manifest.*', '', url)
  self.paths = [download_url + line for line in lines if line.startswith('Fragments')]
  self.times = [0.] + [float(line.split(':')[1].split(',')[0])
                       for line in lines if line.startswith('#EXTINF:')]
  self.duration = min(sum(self.times), limit) if limit else sum(self.times)
  \<close>
\<close>

definition read_catalog ::
  "(string \<Rightarrow> real option) \<Rightarrow> string \<Rightarrow> string \<Rightarrow> real \<Rightarrow> error + catalog"
where
  "read_catalog float_of url text limit =
     (let lines = lines_of text;
          download_url = strip_manifest url;
          paths = map (\<lambda>line. download_url @ line)
                    (filter (\<lambda>line. startswith line ''Fragments'') lines)
      in case collect (extinf_seconds float_of)
                (filter (\<lambda>line. startswith line ''#EXTINF:'') lines) of
           Inl e \<Rightarrow> Inl e
         | Inr seconds \<Rightarrow>
             (let times = [0] @ seconds
              in Inr \<lparr>cat_paths = paths, cat_times = times,
                      cat_duration =
                        (if limit \<noteq> 0 then min (py_sum times) limit else py_sum times)\<rparr>))"

subsection \<open>Reading the catalog\<close>

text \<open>The \<^verbatim>\<open>#EXTINF\<close> lines of a manifest text.\<close>

definition extinf_lines :: "string \<Rightarrow> string list" where
  "extinf_lines text = filter (\<lambda>line. startswith line ''#EXTINF:'') (lines_of text)"

text \<open>The fragment URLs of a manifest text that was fetched from \<open>url\<close>.\<close>

definition fragment_paths :: "string \<Rightarrow> string \<Rightarrow> string list" where
  "fragment_paths url text =
     map (\<lambda>line. strip_manifest url @ line)
       (filter (\<lambda>line. startswith line ''Fragments'') (lines_of text))"

subsection \<open>A reader of decimal fractions and a sample manifest\<close>

text \<open>
  Python's \<^verbatim>\<open>float\<close> on the plain decimal strings of the samples: digits, a point,
  digits. Every other string is refused here.
\<close>

definition decimal_real :: "string \<Rightarrow> real option" where
  "decimal_real s =
     (case split_on CHR ''.'' s of
        [whole, fraction] \<Rightarrow>
          (if whole = [] \<or> fraction = [] then None
           else map_option (\<lambda>n. real n / 10 ^ length fraction)
                  (read_digits 0 (whole @ fraction)))
      | _ \<Rightarrow> None)"

definition three_fragments :: string where
  "three_fragments =
     ''#EXTM3U'' @ [carriage_return, newline]
     @ ''#EXTINF:2.0,no-desc'' @ [carriage_return, newline]
     @ ''Fragments(video=0,format=m3u8-aapl)'' @ [carriage_return, newline]
     @ ''#EXTINF:3.5,no-desc'' @ [newline]
     @ ''Fragments(video=20000000,format=m3u8-aapl)'' @ [newline]
     @ ''#EXTINF:1.5,no-desc'' @ [newline]
     @ ''Fragments(video=55000000,format=m3u8-aapl)'' @ [newline]
     @ ''#EXT-X-ENDLIST''"

definition fragments_url :: string where
  "fragments_url = ''https://host/video.ism/QualityLevels(3200000)/Manifest(video,format=m3u8-aapl)''"

section \<open>\<^verbatim>\<open>Downloader.get_video_id\<close> and \<^verbatim>\<open>Downloader.get_manifest\<close>\<close>

text \<open>
  What is left of \<open>s\<close> after the last place where \<open>marker\<close> occurs in it; \<open>s\<close> itself if
  there is no such place.
\<close>

fun after_last :: "string \<Rightarrow> string \<Rightarrow> string" where
  "after_last marker [] = []"
| "after_last marker (c # cs) =
     (if contains cs marker then after_last marker cs
      else if prefix marker (c # cs) then drop (length marker) (c # cs)
      else c # cs)"

definition double_quote :: char where
  "double_quote = CHR 0x22"

definition text_to_find :: string where
  "text_to_find =
     ''main-feed-activity-card-with-comments'' @ [double_quote] @ '' data-activity-urn=''
       @ [double_quote] @ ''urn:li:activity:''"

text \<open>
  \<^verbatim>\<open>
  if '/urn:li:ugcPost:' in r.url:
      return re.sub(r'^.*/urn:li:ugcPost:|/.*$', '', r.url)
  text_to_find = 'main-feed-activity-card-with-comments" data-activity-urn="urn:li:activity:'
  line = [line for line in r.text.split('\n') if text_to_find in line][0]
  return re.sub(r'.*urn:li:ugcPost:|".*', '', line)
  \<close>
  On a string without a line break the first substitution keeps what stands between the
  last \<^verbatim>\<open>/urn:li:ugcPost:\<close> and the next slash, the second what stands between the last
  \<^verbatim>\<open>urn:li:ugcPost:\<close> (or the start of the line, if there is none) and the next double
  quote.
\<close>

definition get_video_id :: "response \<Rightarrow> error + string" where
  "get_video_id r =
     (if contains (resp_url r) ''/urn:li:ugcPost:''
      then Inr (takeWhile (\<lambda>c. c \<noteq> CHR ''/'') (after_last ''/urn:li:ugcPost:'' (resp_url r)))
      else
        (case filter (\<lambda>line. contains line text_to_find) (split_on newline (resp_text r)) of
           [] \<Rightarrow> Inl IndexError
         | line # _ \<Rightarrow>
             Inr (takeWhile (\<lambda>c. c \<noteq> double_quote) (after_last ''urn:li:ugcPost:'' line))))"

definition api_url :: "string \<Rightarrow> string" where
  "api_url video_id =
     ''https://www.linkedin.com/voyager/api/video/liveUpdates/urn%3Ali%3AugcPost%3A'' @ video_id"

definition api_kwargs :: "cookie \<Rightarrow> response \<Rightarrow> kwargs" where
  "api_kwargs c r =
     \<lparr>kw_headers =
        [(''Accept-Encoding'', ''gzip, deflate, br''),
         (''csrf-token'', cookie_value c),
         (''Cookie'', cookie_name c @ ''='' @ [double_quote] @ cookie_value c @ [double_quote])],
      kw_cookies = resp_cookies r\<rparr>"

text \<open>
  \<open>master_playlist_of\<close> stands for \<^verbatim>\<open>json.loads\<close> and the look-up of
  \<^verbatim>\<open>['content'][...]['videoPlayMetadata']['adaptiveStreams'][0]['masterPlaylists'][0]['url']\<close>
  in its result, with the exception that either of them raises.

  \<^verbatim>\<open>
  if '/Manifest' in url:
      return url
  if '/manifest' in url:
      return self.get_quality(url, quality)
  r = trying_get(url)
  cookie = [cookie for cookie in r.cookies if cookie.name == 'JSESSIONID'][0]
  id = self.get_video_id(r)
  headers = {...}
  r = trying_get(f'https://www.linkedin.com/.../urn%3Ali%3AugcPost%3A{id}',
                 max_attempts, wait, headers=headers, cookies=r.cookies)
  result = json.loads(r.content)
  ...
  return self.get_manifest(url, quality, max_attempts, wait)
  \<close>
  The method calls itself with a URL that the network has chosen, so nothing bounds the
  number of these calls: it is a partial function.
\<close>

partial_function (option) get_manifest ::
  "(string \<Rightarrow> int option) \<Rightarrow> (string \<Rightarrow> error + string) \<Rightarrow> network \<Rightarrow> int \<Rightarrow> int
     \<Rightarrow> string \<Rightarrow> int \<Rightarrow> int \<Rightarrow> int \<Rightarrow> world \<Rightarrow> ((error + string) \<times> world) option"
where
  "get_manifest int_of master_playlist_of net self_max_attempts self_wait
       url quality max_attempts wait w =
     (if contains url ''/Manifest'' then Some (Inr url, w)
      else if contains url ''/manifest''
      then get_quality int_of net self_max_attempts self_wait url quality w
      else
        (case trying_get net url no_kwargs MAX_ATTEMPTS WAIT w of
           None \<Rightarrow> None
         | Some (Inl e, w1) \<Rightarrow> Some (Inl e, w1)
         | Some (Inr None, w1) \<Rightarrow> Some (Inl AttributeError, w1)
         | Some (Inr (Some r), w1) \<Rightarrow>
             (case filter (\<lambda>c. cookie_name c = ''JSESSIONID'') (resp_cookies r) of
                [] \<Rightarrow> Some (Inl IndexError, w1)
              | cookie # _ \<Rightarrow>
                  (case get_video_id r of
                     Inl e \<Rightarrow> Some (Inl e, w1)
                   | Inr video_id \<Rightarrow>
                       (case trying_get net (api_url video_id) (api_kwargs cookie r)
                               max_attempts wait w1 of
                          None \<Rightarrow> None
                        | Some (Inl e, w2) \<Rightarrow> Some (Inl e, w2)
                        | Some (Inr None, w2) \<Rightarrow> Some (Inl AttributeError, w2)
                        | Some (Inr (Some r2), w2) \<Rightarrow>
                            (case master_playlist_of (resp_content r2) of
                               Inl e \<Rightarrow> Some (Inl e, w2)
                             | Inr url' \<Rightarrow>
                                 get_manifest int_of master_playlist_of net
                                   self_max_attempts self_wait
                                   url' quality max_attempts wait w2))))))"

declare get_manifest.simps [code]

subsection \<open>Sample pages\<close>

definition landing_url :: string where
  "landing_url = ''https://www.linkedin.com/posts/urn:li:ugcPost:6912/''"

definition session_cookie :: cookie where
  "session_cookie = \<lparr>cookie_name = ''JSESSIONID'', cookie_value = ''ajax:1''\<rparr>"

definition landing_page :: response where
  "landing_page = (empty_page landing_url)\<lparr>resp_cookies := [session_cookie]\<rparr>"

definition api_page :: response where
  "api_page = (empty_page (api_url ''6912''))\<lparr>resp_content := master_url\<rparr>"

text \<open>A stand-in for the JSON look-up on the sample: the body is the URL.\<close>

definition body_is_playlist :: "string \<Rightarrow> error + string" where
  "body_is_playlist body = Inr body"

text \<open>The landing page is served; every other request fails.\<close>

definition net_api_down :: network where
  "net_api_down k url kw = (if url = landing_url then Ok landing_page else Fails (ConnectionError k))"

text \<open>The landing page and the API are served; every other request fails.\<close>

definition net_listing_down :: network where
  "net_listing_down k url kw =
     (if url = landing_url then Ok landing_page
      else if url = api_url ''6912'' then Ok api_page
      else Fails (ConnectionError k))"

section \<open>The stitcher: \<^verbatim>\<open>_get_next_clip\<close>, \<^verbatim>\<open>__init__\<close> and \<^verbatim>\<open>_make_frame\<close>\<close>

text \<open>
  What the decoder (\<^verbatim>\<open>VideoFileClip\<close>) finds in the bytes of a fragment: its duration, its
  frame rate, the frame at each local time, and the audio track (its parameters and its
  samples) if there is one. The type \<open>'f\<close> of frames is left open.
\<close>

record 'f media =
  m_duration :: real
  m_fps :: real
  m_frame :: "real \<Rightarrow> 'f"
  m_audio :: "(nat \<times> nat list) option"

text \<open>A \<^verbatim>\<open>VideoFileClip\<close>: the temporary file it reads, and what is in it.\<close>

record 'f video_clip =
  filename :: nat
  media :: "'f media"

text \<open>The \<^verbatim>\<open>wave\<close> writer behind \<^verbatim>\<open>self.audio_file\<close>.\<close>

record wave_write =
  wav_params :: "nat option"
  wav_frames :: "nat list"

text \<open>
  The attributes of a \<^verbatim>\<open>Downloader\<close>: \<open>d_max_attempts\<close> and \<open>d_wait\<close> are
  \<^verbatim>\<open>_max_attempts\<close> and \<^verbatim>\<open>_wait\<close>, \<open>times_list\<close> is \<^verbatim>\<open>times\<close>. \<open>current_clip\<close> is
  \<open>None\<close> as long as the constructor has not set it. The index \<open>clip\<close> starts at 0 and
  is only ever incremented: it is a natural number.
\<close>

record 'f downloader =
  d_max_attempts :: int
  d_wait :: int
  paths :: "string list"
  times_list :: "real list"
  duration :: real
  pos :: real
  clip :: nat
  wav_file :: nat
  audio_file :: wave_write
  current_clip :: "'f video_clip option"

text \<open>\<^verbatim>\<open>mktemp(suffix)\<close>: a name that no earlier call has returned.\<close>

definition mktemp :: "string \<Rightarrow> world \<Rightarrow> nat \<times> world" where
  "mktemp sfx w =
     (tmp_names w, emit (Mktemp (tmp_names w) sfx) (w\<lparr>tmp_names := Suc (tmp_names w)\<rparr>))"

text \<open>
  \<^verbatim>\<open>
  video_tmp_file = mktemp('.mp4')
  r = trying_get(url, self._max_attempts, self._wait)
  with open(video_tmp_file, 'wb') as file:
      file.write(r.content)
  clip = VideoFileClip(video_tmp_file)
  with removable_tmp(suffix='.wav') as audio_tmp_file:
      clip.audio.write_audiofile(audio_tmp_file, logger=None)
      with wave.open(audio_tmp_file, "rb") as w:
          try:
              self.audio_file.getparams()
          except wave.Error:
              self.audio_file.setparams(w.getparams())
          self.audio_file.writeframes(w.readframes(w.getnframes()))
  return clip
  \<close>
  \<open>decode\<close> is the decoder, with the exception it raises on bytes it cannot read. The
  file is opened for writing before \<^verbatim>\<open>r.content\<close> is read, so it exists even when \<open>r\<close> is
  \<^verbatim>\<open>None\<close>. A clip without an audio track has \<^verbatim>\<open>clip.audio = None\<close>.
\<close>

definition get_next_clip ::
  "(string \<Rightarrow> error + 'f media) \<Rightarrow> network \<Rightarrow> 'f downloader \<Rightarrow> string \<Rightarrow> world
     \<Rightarrow> (((error + 'f video_clip) \<times> 'f downloader) \<times> world) option"
where
  "get_next_clip decode net self url w =
     (case mktemp ''.mp4'' w of (video_tmp_file, w1) \<Rightarrow>
      (case trying_get net url no_kwargs (d_max_attempts self) (d_wait self) w1 of
         None \<Rightarrow> None
       | Some (Inl e, w2) \<Rightarrow> Some ((Inl e, self), w2)
       | Some (Inr None, w2) \<Rightarrow>
           Some ((Inl AttributeError, self), emit (WriteFile video_tmp_file) w2)
       | Some (Inr (Some r), w2) \<Rightarrow>
           (case decode (resp_content r) of
              Inl e \<Rightarrow> Some ((Inl e, self), emit (WriteFile video_tmp_file) w2)
            | Inr m \<Rightarrow>
                (case mktemp ''.wav''
                        (emit (OpenClip video_tmp_file) (emit (WriteFile video_tmp_file) w2)) of
                   (audio_tmp_file, w3) \<Rightarrow>
                   (case m_audio m of
                      None \<Rightarrow>
                        Some ((Inl AttributeError, self), emit (RemoveAudio audio_tmp_file) w3)
                    | Some (params, frames) \<Rightarrow>
                        Some ((Inr \<lparr>filename = video_tmp_file, media = m\<rparr>,
                               self\<lparr>audio_file :=
                                 \<lparr>wav_params =
                                    (case wav_params (audio_file self) of
                                       None \<Rightarrow> Some params
                                     | Some p \<Rightarrow> Some p),
                                  wav_frames = wav_frames (audio_file self) @ frames\<rparr>\<rparr>),
                              emit (RemoveAudio audio_tmp_file)
                                (emit (AppendAudio (length frames))
                                  (emit (WriteAudio audio_tmp_file) w3))))))))"

text \<open>
  The constructor. \<^verbatim>\<open>self.paths[0]\<close> of an empty list raises \<^verbatim>\<open>IndexError\<close>.
  \<^verbatim>\<open>
  self._max_attempts = max_attempts
  self._wait = wait
  url = self.get_manifest(url, quality, max_attempts, wait)
  r = trying_get(url, max_attempts, wait)
  ...
  self.pos = 0
  self.clip = 0
  self.audio_fps = None
  self.wav_file = mktemp(suffix='.wav')
  self.audio_file = wave.open(self.wav_file, 'wb')
  self.current_clip = self._get_next_clip(self.paths[self.clip])
  \<close>
\<close>

definition Downloader_init ::
  "(string \<Rightarrow> int option) \<Rightarrow> (string \<Rightarrow> real option) \<Rightarrow> (string \<Rightarrow> error + string)
     \<Rightarrow> (string \<Rightarrow> error + 'f media) \<Rightarrow> network
     \<Rightarrow> string \<Rightarrow> int \<Rightarrow> int \<Rightarrow> real \<Rightarrow> int \<Rightarrow> world
     \<Rightarrow> ((error + 'f downloader) \<times> world) option"
where
  "Downloader_init int_of float_of master_playlist_of decode net url max_attempts wait limit quality w =
     (case get_manifest int_of master_playlist_of net max_attempts wait
             url quality max_attempts wait w of
        None \<Rightarrow> None
      | Some (Inl e, w1) \<Rightarrow> Some (Inl e, w1)
      | Some (Inr manifest_url, w1) \<Rightarrow>
          (case trying_get net manifest_url no_kwargs max_attempts wait w1 of
             None \<Rightarrow> None
           | Some (Inl e, w2) \<Rightarrow> Some (Inl e, w2)
           | Some (Inr None, w2) \<Rightarrow> Some (Inl AttributeError, w2)
           | Some (Inr (Some r), w2) \<Rightarrow>
               (case read_catalog float_of manifest_url (resp_text r) limit of
                  Inl e \<Rightarrow> Some (Inl e, w2)
                | Inr c \<Rightarrow>
                    (case mktemp ''.wav'' w2 of (wav, w3) \<Rightarrow>
                     (let self = \<lparr>d_max_attempts = max_attempts, d_wait = wait,
                                  paths = cat_paths c, times_list = cat_times c,
                                  duration = cat_duration c, pos = 0, clip = 0,
                                  wav_file = wav,
                                  audio_file = \<lparr>wav_params = None, wav_frames = []\<rparr>,
                                  current_clip = None\<rparr>
                      in if clip self < length (paths self) then
                           (case get_next_clip decode net self (paths self ! clip self) w3 of
                              None \<Rightarrow> None
                            | Some ((Inl e, self'), w4) \<Rightarrow> Some (Inl e, w4)
                            | Some ((Inr c, self'), w4) \<Rightarrow>
                                Some (Inr (self'\<lparr>current_clip := Some c\<rparr>), w4))
                         else Some (Inl IndexError, w3))))))"

text \<open>
  \<^verbatim>\<open>
  if self.current_clip.duration < t - self.pos:
      self.pos += self.current_clip.duration
      self.clip += 1
      self.current_clip.close()
      remove(self.current_clip.filename)
      self.current_clip = self._get_next_clip(self.paths[self.clip])
  return self.current_clip.get_frame(t - self.pos)
  \<close>
  An exception leaves the object as the statements before it have made it: the result is
  an error or a frame, and the object in either case.
\<close>

definition make_frame ::
  "(string \<Rightarrow> error + 'f media) \<Rightarrow> network \<Rightarrow> 'f downloader \<Rightarrow> real \<Rightarrow> world
     \<Rightarrow> (((error + 'f) \<times> 'f downloader) \<times> world) option"
where
  "make_frame decode net self t w =
     (case current_clip self of
        None \<Rightarrow> Some ((Inl AttributeError, self), w)
      | Some resident \<Rightarrow>
          if m_duration (media resident) < t - pos self then
            (let self1 = self\<lparr>pos := pos self + m_duration (media resident),
                              clip := clip self + 1\<rparr>;
                 w1 = emit (Remove (filename resident)) (emit (CloseClip (filename resident)) w)
             in if clip self1 < length (paths self1) then
                  (case get_next_clip decode net self1 (paths self1 ! clip self1) w1 of
                     None \<Rightarrow> None
                   | Some ((Inl e, self2), w2) \<Rightarrow> Some ((Inl e, self2), w2)
                   | Some ((Inr c, self2), w2) \<Rightarrow>
                       Some ((Inr (m_frame (media c) (t - pos self2)),
                              self2\<lparr>current_clip := Some c\<rparr>), w2))
                else Some ((Inl IndexError, self1), w1))
          else Some ((Inr (m_frame (media resident) (t - pos self)), self), w))"

text \<open>
  The encoder that \<^verbatim>\<open>download\<close> hands \<^verbatim>\<open>_make_frame\<close> to asks for one frame after the
  other and stops at the first exception. The run keeps, for every request, what the
  request has returned or raised and the object after it.
\<close>

fun request_frames ::
  "(string \<Rightarrow> error + 'f media) \<Rightarrow> network \<Rightarrow> 'f downloader \<Rightarrow> real list \<Rightarrow> world
     \<Rightarrow> (((error + 'f) \<times> 'f downloader) list \<times> world) option"
where
  "request_frames decode net self [] w = Some ([], w)"
| "request_frames decode net self (t # ts) w =
     (case make_frame decode net self t w of
        None \<Rightarrow> None
      | Some ((Inl e, self'), w') \<Rightarrow> Some ([(Inl e, self')], w')
      | Some ((Inr f, self'), w') \<Rightarrow>
          (case request_frames decode net self' ts w' of
             None \<Rightarrow> None
           | Some (rest, w'') \<Rightarrow> Some ((Inr f, self') # rest, w'')))"

subsection \<open>Reading a run of the stitcher\<close>

text \<open>The time at which fragment \<open>i\<close> starts: the durations of the fragments before it.\<close>

definition start_time :: "real list \<Rightarrow> nat \<Rightarrow> real" where
  "start_time ds i = sum_list (take i ds)"

text \<open>
  Fragment \<open>i\<close> covers the time \<open>t\<close>: \<open>t\<close> lies after its start, or \<open>i\<close> is the first
  fragment, and not after its end.
\<close>

definition covers :: "real list \<Rightarrow> nat \<Rightarrow> real \<Rightarrow> bool" where
  "covers ds i t \<longleftrightarrow>
     i < length ds \<and> (i = 0 \<or> start_time ds i < t) \<and> t \<le> start_time ds (Suc i)"

text \<open>
  The fragment of the specification for the time \<open>t\<close>: the \<open>i\<close> with
  \<open>start_time ds i \<le> t < start_time ds (i + 1)\<close>, as a test of an index and as the index
  found from the left.
\<close>

definition spec_covers :: "real list \<Rightarrow> nat \<Rightarrow> real \<Rightarrow> bool" where
  "spec_covers ds i t \<longleftrightarrow>
     i < length ds \<and> start_time ds i \<le> t \<and> t < start_time ds (Suc i)"

fun spec_fragment_at :: "real list \<Rightarrow> real \<Rightarrow> nat" where
  "spec_fragment_at [] t = 0"
| "spec_fragment_at (d # ds) t = (if t < d then 0 else Suc (spec_fragment_at ds (t - d)))"


text \<open>
  The network serves the fragments: whenever a request for the \<open>j\<close>-th fragment URL is
  answered, the answer decodes to the \<open>j\<close>-th of the media \<open>ms\<close>.
\<close>

definition serves :: "network \<Rightarrow> (string \<Rightarrow> error + 'f media) \<Rightarrow> string list \<Rightarrow> 'f media list \<Rightarrow> bool" where
  "serves net decode urls ms \<longleftrightarrow>
     length ms = length urls
     \<and> (\<forall>k j r. j < length urls \<and> net k (urls ! j) no_kwargs = Ok r
           \<longrightarrow> decode (resp_content r) = Inr (ms ! j))"


text \<open>The object is at fragment \<open>clip\<close>, with the clip of that fragment resident.\<close>

definition at_fragment :: "'f media list \<Rightarrow> 'f downloader \<Rightarrow> bool" where
  "at_fragment ms self \<longleftrightarrow>
     clip self < length ms
     \<and> pos self = start_time (map m_duration ms) (clip self)
     \<and> (\<exists>c. current_clip self = Some c \<and> media c = ms ! clip self)"

text \<open>
  The clips that are open and the fragment files that exist after an event, and a check
  of a whole log, event by event: never more than one open clip, never more than one
  fragment file, and neither of them while a request is sent.
\<close>

fun clips_after :: "event \<Rightarrow> nat list \<Rightarrow> nat list" where
  "clips_after (OpenClip n) held = held @ [n]"
| "clips_after (CloseClip n) held = removeAll n held"
| "clips_after _ held = held"

fun files_after :: "event \<Rightarrow> nat list \<Rightarrow> nat list" where
  "files_after (WriteFile n) held = held @ [n]"
| "files_after (Remove n) held = removeAll n held"
| "files_after _ held = held"

fun one_resident :: "nat list \<Rightarrow> nat list \<Rightarrow> event list \<Rightarrow> bool" where
  "one_resident clips files [] = True"
| "one_resident clips files (ev # evs) =
     (length (clips_after ev clips) \<le> 1
      \<and> length (files_after ev files) \<le> 1
      \<and> (is_get ev \<longrightarrow> clips = [] \<and> files = [])
      \<and> one_resident (clips_after ev clips) (files_after ev files) evs)"

text \<open>The clips that are open and the fragment files that exist after a whole log.\<close>

definition held_clips :: "nat list \<Rightarrow> event list \<Rightarrow> nat list" where
  "held_clips clips evs = foldl (\<lambda>held ev. clips_after ev held) clips evs"

definition held_files :: "nat list \<Rightarrow> event list \<Rightarrow> nat list" where
  "held_files files evs = foldl (\<lambda>held ev. files_after ev held) files evs"

text \<open>
  The log so far is as it should be, and what is held at its end is the clip of the
  object and the file of that clip.
\<close>

definition resident :: "'f downloader \<Rightarrow> world \<Rightarrow> bool" where
  "resident self w \<longleftrightarrow>
     one_resident [] [] (events w)
     \<and> (\<exists>c. current_clip self = Some c
           \<and> held_clips [] (events w) = [filename c]
           \<and> held_files [] (events w) = [filename c])"

subsection \<open>A sample stream\<close>

definition sample_media :: "string \<Rightarrow> real \<Rightarrow> (string \<times> real) media" where
  "sample_media name d =
     \<lparr>m_duration = d, m_fps = 25, m_frame = (\<lambda>t. (name, t)), m_audio = Some (2, [])\<rparr>"

text \<open>The decoder of the sample: the bytes are the name of the fragment.\<close>

definition sample_decode :: "string \<Rightarrow> error + (string \<times> real) media" where
  "sample_decode bytes =
     (if bytes = ''a'' then Inr (sample_media ''a'' 2)
      else if bytes = ''b'' then Inr (sample_media ''b'' 3.5)
      else if bytes = ''c'' then Inr (sample_media ''c'' 1.5)
      else Inl (OtherError 0))"


text \<open>Every URL is served with itself as the body.\<close>

definition net_echo :: network where
  "net_echo k url kw = Ok ((empty_page url)\<lparr>resp_content := url\<rparr>)"

text \<open>The object after the constructor, on the sample.\<close>

definition sample_downloader :: "(string \<times> real) downloader" where
  "sample_downloader =
     \<lparr>d_max_attempts = 10, d_wait = 10, paths = [''a'', ''b'', ''c''],
      times_list = [0, 2, 3.5, 1.5], duration = 7, pos = 0, clip = 0, wav_file = 0,
      audio_file = \<lparr>wav_params = Some 2, wav_frames = []\<rparr>,
      current_clip = Some \<lparr>filename = 1, media = sample_media ''a'' 2\<rparr>\<rparr>"

text \<open>The object of the sample with its last fragment resident.\<close>

definition sample_downloader_last :: "(string \<times> real) downloader" where
  "sample_downloader_last =
     sample_downloader\<lparr>pos := 5.5, clip := 2,
       current_clip := Some \<lparr>filename = 5, media = sample_media ''c'' 1.5\<rparr>\<rparr>"

definition sample_world :: world where
  "sample_world =
     \<lparr>requests = 1, tmp_names = 3,
      events = [Mktemp 0 ''.wav'', Mktemp 1 ''.mp4'', Get ''a'', WriteFile 1, OpenClip 1,
                Mktemp 2 ''.wav'', WriteAudio 2, AppendAudio 0, RemoveAudio 2]\<rparr>"


text \<open>The events of a request: the only ones that \<^verbatim>\<open>trying_get\<close> logs.\<close>

fun request_event :: "event \<Rightarrow> bool" where
  "request_event (Get _) = True"
| "request_event (Warn _ _ _ _) = True"
| "request_event (Sleep _) = True"
| "request_event _ = False"



text \<open>
  From the world \<open>w\<close> to the world \<open>w'\<close> nothing has happened but requests: no temporary
  name was taken, and the log has grown by request events.
\<close>

definition only_requests :: "world \<Rightarrow> world \<Rightarrow> bool" where
  "only_requests w w' \<longleftrightarrow>
     tmp_names w' = tmp_names w
     \<and> (\<exists>evs. events w' = events w @ evs \<and> list_all request_event evs)"

subsection \<open>A sample of a whole download\<close>

definition fragment_a :: string where
  "fragment_a = ''https://host/video.ism/QualityLevels(3200000)/Fragments(video=0,format=m3u8-aapl)''"

text \<open>
  The manifest of the sample stream at its URL; under every other URL the bytes of the
  fragment \<open>a\<close>.
\<close>

definition net_stream :: network where
  "net_stream k url kw =
     (if url = fragments_url then Ok ((empty_page url)\<lparr>resp_text := three_fragments\<rparr>)
      else Ok ((empty_page url)\<lparr>resp_content := ''a''\<rparr>))"

section \<open>Properties of \<^verbatim>\<open>trying_get\<close>\<close>

lemma issue_get_simps:
  "requests (issue_get url w) = Suc (requests w)"
  "events (issue_get url w) = events w @ [Get url]"
  "tmp_names (issue_get url w) = tmp_names w"
  by (simp_all add: issue_get_def emit_def)

lemma emit_simps:
  "requests (emit ev w) = requests w"
  "events (emit ev w) = events w @ [ev]"
  "tmp_names (emit ev w) = tmp_names w"
  by (simp_all add: emit_def)

text \<open>
  The loop with \<open>n + 1\<close> attempts left, on a network that refuses the next \<open>n + 1\<close>
  requests: by induction on \<open>n\<close>, with the world and the numbering of the errors
  generalised, since every round moves both.
\<close>

lemma trying_get_loop_exhaust:
  assumes "0 \<le> wait"
    and "\<forall>k\<le>n. net (requests w + k) url kw = Fails (e k) \<and> is_connection_error (e k)"
  shows "trying_get_loop net url kw m wait (int (Suc n)) w =
    Some (Inl (e n),
      w\<lparr>requests := requests w + Suc n,
        events := events w
          @ concat (map (\<lambda>k. failed_round url m wait (m - int n + int k)) [0..<n])
          @ [Get url, Warn url m m wait]\<rparr>)"
  using assms
proof (induction n arbitrary: w e)
  case 0
  then have "net (requests w) url kw = Fails (e 0)" "is_connection_error (e 0)" by auto
  then show ?case
    by (subst trying_get_loop.simps) (simp add: issue_get_def emit_def)
next
  case (Suc n)
  from Suc.prems(2) have first: "net (requests w) url kw = Fails (e 0)" "is_connection_error (e 0)"
    by auto
  let ?w = "emit (Sleep wait) (emit (Warn url (m - int (Suc n)) m wait) (issue_get url w))"
  have rest: "\<forall>k\<le>n. net (requests ?w + k) url kw = Fails (e (Suc k)) \<and> is_connection_error (e (Suc k))"
    using Suc.prems(2) by (auto simp: issue_get_simps emit_simps)
  have IH: "trying_get_loop net url kw m wait (int (Suc n)) ?w =
    Some (Inl (e (Suc n)),
      ?w\<lparr>requests := requests ?w + Suc n,
        events := events ?w
          @ concat (map (\<lambda>k. failed_round url m wait (m - int n + int k)) [0..<n])
          @ [Get url, Warn url m m wait]\<rparr>)"
    using Suc.IH [OF Suc.prems(1), of ?w "\<lambda>k. e (Suc k)"] rest by simp
  have shift: "map (\<lambda>k. failed_round url m wait (m - int (Suc n) + int k)) [0..<Suc n] =
      failed_round url m wait (m - int (Suc n))
        # map (\<lambda>k. failed_round url m wait (m - int n + int k)) [0..<n]"
    by (simp add: map_upt_Suc algebra_simps del: upt_Suc)
  show ?case
    apply (subst trying_get_loop.simps)
    apply (simp only: shift)
    using first Suc.prems(1) IH
    apply (simp add: Let_def issue_get_def emit_def failed_round_def)
    done
qed

text \<open>
  The loop on a network that refuses \<open>n\<close> requests and answers the next one, with more
  than \<open>n\<close> attempts left.
\<close>

lemma trying_get_loop_recover:
  assumes "0 \<le> wait \<or> n = 0"
    and "int n < a"
    and "\<forall>k<n. net (requests w + k) url kw = Fails (e k) \<and> is_connection_error (e k)"
    and "net (requests w + n) url kw = Ok r"
  shows "trying_get_loop net url kw m wait a w =
    Some (Inr (Some r),
      w\<lparr>requests := requests w + Suc n,
        events := events w
          @ concat (map (\<lambda>k. failed_round url m wait (m - a + 1 + int k)) [0..<n])
          @ [Get url]\<rparr>)"
  using assms
proof (induction n arbitrary: w e a)
  case 0
  then show ?case
    by (subst trying_get_loop.simps) (simp add: issue_get_def emit_def)
next
  case (Suc n)
  from Suc.prems(3) have first: "net (requests w) url kw = Fails (e 0)" "is_connection_error (e 0)"
    by auto
  from Suc.prems(1) have wait: "0 \<le> wait" by simp
  let ?w = "emit (Sleep wait) (emit (Warn url (m - (a - 1)) m wait) (issue_get url w))"
  have rest: "\<forall>k<n. net (requests ?w + k) url kw = Fails (e (Suc k)) \<and> is_connection_error (e (Suc k))"
    using Suc.prems(3) by (auto simp: issue_get_simps emit_simps)
  have last: "net (requests ?w + n) url kw = Ok r"
    using Suc.prems(4) by (simp add: issue_get_simps emit_simps)
  have a: "int n < a - 1" "a \<noteq> 0" "a - 1 \<noteq> 0"
    using Suc.prems(2) by auto
  have IH: "trying_get_loop net url kw m wait (a - 1) ?w =
    Some (Inr (Some r),
      ?w\<lparr>requests := requests ?w + Suc n,
        events := events ?w
          @ concat (map (\<lambda>k. failed_round url m wait (m - (a - 1) + 1 + int k)) [0..<n])
          @ [Get url]\<rparr>)"
    using Suc.IH [of "a - 1" ?w "\<lambda>k. e (Suc k)"] wait a(1) rest last by simp
  have shift: "map (\<lambda>k. failed_round url m wait (m - a + 1 + int k)) [0..<Suc n] =
      failed_round url m wait (m - (a - 1))
        # map (\<lambda>k. failed_round url m wait (m - (a - 1) + 1 + int k)) [0..<n]"
    by (simp add: map_upt_Suc algebra_simps del: upt_Suc)
  show ?case
    apply (subst trying_get_loop.simps)
    apply (simp only: shift)
    using first wait a(2,3) IH
    apply (simp add: Let_def issue_get_def emit_def failed_round_def)
    done
qed

lemma filter_concat_rounds:
  "filter P (concat (map f xs)) = concat (map (\<lambda>x. filter P (f x)) xs)"
  by (induction xs) simp_all

lemma concat_singletons: "concat (map (\<lambda>k. [x]) xs) = replicate (length xs) x"
  by (induction xs) simp_all

lemma gets_of_exhausted:
  "1 \<le> m \<Longrightarrow> length (filter is_get (exhausted_events url m wait)) = nat m"
  by (simp add: exhausted_events_def failed_round_def filter_concat_rounds concat_singletons)

lemma sleeps_of_exhausted:
  "filter is_sleep (exhausted_events url m wait) = replicate (nat m - 1) (Sleep wait)"
  by (simp add: exhausted_events_def failed_round_def filter_concat_rounds concat_singletons
      map_replicate_const)

lemma pos_int_Suc: "1 \<le> (m::int) \<Longrightarrow> \<exists>n. m = int (Suc n)"
  by (rule exI [of _ "nat m - 1"]) simp

lemma trying_get_all_refused:
  assumes "1 \<le> max_attempts"
    and "0 \<le> wait"
    and "\<forall>k<nat max_attempts.
           net (requests w + k) url kw = Fails (e k) \<and> is_connection_error (e k)"
  shows "trying_get net url kw max_attempts wait w =
      Some (Inl (e (nat max_attempts - 1)),
        w\<lparr>requests := requests w + nat max_attempts,
          events := events w @ exhausted_events url max_attempts wait\<rparr>)"
proof -
  obtain n where n: "max_attempts = int (Suc n)"
    using pos_int_Suc [OF assms(1)] by blast
  then have nat_m: "nat max_attempts = Suc n"
    by simp
  have fails: "\<forall>k\<le>n. net (requests w + k) url kw = Fails (e k) \<and> is_connection_error (e k)"
    using assms(3) n by simp
  have rounds: "map (\<lambda>k. failed_round url max_attempts wait (max_attempts - int n + int k)) [0..<n]
      = map (\<lambda>k. failed_round url max_attempts wait (int k + 1)) [0..<n]"
    using n by (simp add: algebra_simps)
  have "trying_get net url kw max_attempts wait w =
      Some (Inl (e n),
        w\<lparr>requests := requests w + Suc n,
          events := events w
            @ concat (map (\<lambda>k. failed_round url max_attempts wait (int k + 1)) [0..<n])
            @ [Get url, Warn url max_attempts max_attempts wait]\<rparr>)"
    unfolding trying_get_def
    using trying_get_loop_exhaust [where e = e and n = n and m = max_attempts and net = net
        and w = w and url = url and kw = kw, OF assms(2) fails]
    unfolding rounds using n by simp
  then show ?thesis
    using nat_m by (simp add: exhausted_events_def)
qed

lemma trying_get_answered:
  assumes "max_attempts \<noteq> 0"
    and "net (requests w) url kw = Ok r"
  shows "trying_get net url kw max_attempts wait w = Some (Inr (Some r), issue_get url w)"
  using assms by (simp add: trying_get_def trying_get_loop.simps)

text \<open>
  C3. With \<open>max_attempts \<ge> 1\<close> and a pause that \<^verbatim>\<open>sleep\<close> accepts, on a network where
  every one of the \<open>max_attempts\<close> requests raises a connection error, \<^verbatim>\<open>trying_get\<close>
  raises the error of the last attempt itself. Its log is \<open>max_attempts - 1\<close> rounds of
  request, warning and pause, and then the last request and its warning: \<open>max_attempts\<close>
  requests, \<open>max_attempts - 1\<close> pauses of \<open>wait\<close> seconds, none after the last attempt.
\<close>

theorem trying_get_exhausted:
  assumes "1 \<le> max_attempts"
    and "0 \<le> wait"
    and "\<forall>k<nat max_attempts.
           net (requests w + k) url kw = Fails (e k) \<and> is_connection_error (e k)"
  shows "trying_get net url kw max_attempts wait w =
      Some (Inl (e (nat max_attempts - 1)),
        w\<lparr>requests := requests w + nat max_attempts,
          events := events w @ exhausted_events url max_attempts wait\<rparr>)
    \<and> length (filter is_get (exhausted_events url max_attempts wait)) = nat max_attempts
    \<and> filter is_sleep (exhausted_events url max_attempts wait)
        = replicate (nat max_attempts - 1) (Sleep wait)
    \<and> last (exhausted_events url max_attempts wait) = Warn url max_attempts max_attempts wait"
proof -
  have "last (exhausted_events url max_attempts wait) = Warn url max_attempts max_attempts wait"
    by (simp add: exhausted_events_def)
  with trying_get_all_refused [where e = e and net = net and w = w and url = url and kw = kw,
      OF assms] gets_of_exhausted [OF assms(1)]
    sleeps_of_exhausted
  show ?thesis
    by simp
qed

theorem trying_get_exhausted_witness:
  "trying_get net_down ''u'' no_kwargs 3 10 world0 =
     Some (Inl (ConnectionError 2),
       \<lparr>requests = 3, tmp_names = 0,
        events = [Get ''u'', Warn ''u'' 1 3 10, Sleep 10,
                  Get ''u'', Warn ''u'' 2 3 10, Sleep 10,
                  Get ''u'', Warn ''u'' 3 3 10]\<rparr>)"
proof -
  have "\<forall>k<nat 3. net_down (requests world0 + k) ''u'' no_kwargs = Fails (ConnectionError k)
      \<and> is_connection_error (ConnectionError k)"
    by (simp add: net_down_def world0_def)
  from trying_get_exhausted [where e = ConnectionError and max_attempts = 3 and wait = 10
      and net = net_down and w = world0 and url = "''u''" and kw = no_kwargs, OF _ _ this]
  show ?thesis
    by (simp add: exhausted_events_def failed_round_def world0_def upt_conv_Cons)
qed

text \<open>
  C7. With \<open>max_attempts \<ge> 1\<close>, on a network that raises a connection error \<open>k\<close> times,
  \<open>k < max_attempts\<close>, and then answers, \<^verbatim>\<open>trying_get\<close> returns that answer and raises
  nothing, after \<open>k + 1\<close> requests.
\<close>

theorem trying_get_recovers:
  assumes "1 \<le> max_attempts"
    and "int k < max_attempts"
    and "0 \<le> wait"
    and "\<forall>i<k. net (requests w + i) url kw = Fails (e i) \<and> is_connection_error (e i)"
    and "net (requests w + k) url kw = Ok r"
  shows "trying_get net url kw max_attempts wait w =
      Some (Inr (Some r),
        w\<lparr>requests := requests w + Suc k,
          events := events w @ recovered_events url max_attempts wait k\<rparr>)"
proof -
  have "0 \<le> wait \<or> k = 0"
    using assms(3) by simp
  from trying_get_loop_recover [where e = e and m = max_attempts and net = net and w = w
      and url = url and kw = kw and n = k, OF this assms(2,4,5)]
  show ?thesis
    by (simp add: trying_get_def recovered_events_def add.commute)
qed

theorem trying_get_recovers_witness:
  "trying_get net_flaky ''u'' no_kwargs 3 10 world0 =
     Some (Inr (Some (empty_page ''u'')),
       \<lparr>requests = 3, tmp_names = 0,
        events = [Get ''u'', Warn ''u'' 1 3 10, Sleep 10,
                  Get ''u'', Warn ''u'' 2 3 10, Sleep 10,
                  Get ''u'']\<rparr>)"
proof -
  have fails: "\<forall>i<2. net_flaky (requests world0 + i) ''u'' no_kwargs = Fails (MaxRetryError i)
      \<and> is_connection_error (MaxRetryError i)"
    by (simp add: net_flaky_def world0_def)
  have ok: "net_flaky (requests world0 + 2) ''u'' no_kwargs = Ok (empty_page ''u'')"
    by (simp add: net_flaky_def world0_def)
  from trying_get_recovers [where e = MaxRetryError and max_attempts = 3 and wait = 10 and k = 2
      and net = net_flaky and w = world0 and url = "''u''" and kw = no_kwargs, OF _ _ _ fails ok]
  show ?thesis
    by (simp add: recovered_events_def failed_round_def world0_def upt_conv_Cons)
qed

text \<open>
  With a negative number of attempts, on a network that refuses every request, the loop
  never ends: the counter moves away from zero.
\<close>

lemma trying_get_loop_never_returns:
  assumes "a < 0" and "0 \<le> wait"
    and "\<forall>k. \<exists>e. net k url kw = Fails e \<and> is_connection_error e"
  shows "trying_get_loop net url kw m wait a w = None"
proof (rule ccontr)
  assume "trying_get_loop net url kw m wait a w \<noteq> None"
  then obtain y where ret: "trying_get_loop net url kw m wait a w = Some y"
    by blast
  have "\<not> (a < 0 \<and> 0 \<le> wait \<and> (\<forall>k. \<exists>e. net k url kw = Fails e \<and> is_connection_error e))"
  proof (rule trying_get_loop.raw_induct
      [where P = "\<lambda>net url kw m wait a w y.
          \<not> (a < 0 \<and> 0 \<le> wait \<and> (\<forall>k. \<exists>e. net k url kw = Fails e \<and> is_connection_error e))",
        OF _ ret])
    fix f :: "network \<Rightarrow> string \<Rightarrow> kwargs \<Rightarrow> int \<Rightarrow> int \<Rightarrow> int \<Rightarrow> world
        \<Rightarrow> ((error + response option) \<times> world) option"
    fix net url kw m wait a w y
    assume IH: "\<And>net url kw m wait a w y. f net url kw m wait a w = Some y \<Longrightarrow>
        \<not> (a < 0 \<and> 0 \<le> wait \<and> (\<forall>k. \<exists>e. net k url kw = Fails e \<and> is_connection_error e))"
    assume eq: "(if a = 0 then Some (Inr None, w)
        else case net (requests w) url kw of
             Ok r \<Rightarrow> Some (Inr (Some r), issue_get url w)
             | Fails e \<Rightarrow>
                 if is_connection_error e
                 then let attempts' = a - 1;
                          w' = emit (Warn url (m - attempts') m wait) (issue_get url w)
                      in if attempts' = 0 then Some (Inl e, w')
                         else if wait < 0 then Some (Inl ValueError, w')
                              else f net url kw m wait attempts' (emit (Sleep wait) w')
                 else Some (Inl e, issue_get url w)) = Some y"
    show "\<not> (a < 0 \<and> 0 \<le> wait \<and> (\<forall>k. \<exists>e. net k url kw = Fails e \<and> is_connection_error e))"
    proof
      assume neg: "a < 0 \<and> 0 \<le> wait \<and> (\<forall>k. \<exists>e. net k url kw = Fails e \<and> is_connection_error e)"
      then obtain e where e: "net (requests w) url kw = Fails e" "is_connection_error e"
        by blast
      with neg eq have "f net url kw m wait (a - 1)
          (emit (Sleep wait) (emit (Warn url (m - (a - 1)) m wait) (issue_get url w))) = Some y"
        by (simp add: Let_def)
      from IH [OF this] neg show False
        by simp
    qed
  qed
  with assms show False
    by simp
qed

text \<open>
  C9, as far as it holds. With \<open>max_attempts = 0\<close> the loop body never runs: no request is
  made, nothing is logged, and the call returns \<^verbatim>\<open>None\<close> instead of a response or an
  error.
\<close>

theorem trying_get_zero_attempts:
  "trying_get net url kw 0 wait w = Some (Inr None, w)"
  by (simp add: trying_get_def trying_get_loop.simps)

text \<open>
  A negative \<open>max_attempts\<close> is different: \<^verbatim>\<open>while attempts\<close> takes a negative number for
  true, so the request is made, and a network that answers gives a response.
\<close>

theorem trying_get_negative_attempts_counterexample:
  "trying_get net_up ''u'' no_kwargs (- 1) 10 world0 =
     Some (Inr (Some (empty_page ''u'')),
       \<lparr>requests = 1, tmp_names = 0, events = [Get ''u'']\<rparr>)
   \<and> trying_get net_up ''u'' no_kwargs (- 1) 10 world0 \<noteq> Some (Inr None, world0)"
  by (simp add: trying_get_def trying_get_loop.simps net_up_def world0_def issue_get_def emit_def)

section \<open>Properties of \<^verbatim>\<open>get_quality\<close>\<close>

lemma selects_quality_line: "selects quality line \<Longrightarrow> quality_line line"
proof -
  assume "selects quality line"
  then have "prefix (''QualityLevels'' @ (''('' @ str_int quality @ '')/Manifest'')) line"
    by (simp add: selects_def startswith_def)
  then have "prefix ''QualityLevels'' line"
    by (rule append_prefixD)
  then show ?thesis
    by (simp add: quality_line_def startswith_def)
qed

lemma get_quality_lines_Cons:
  "get_quality_lines int_of url quality (line # lines) available =
     (if quality_line line then
        (case int_of (strip_quality line) of
           None \<Rightarrow> Inl ValueError
         | Some q \<Rightarrow>
             if selects quality line then Inr (replace_last_segment url line)
             else get_quality_lines int_of url quality lines (available @ [q]))
      else get_quality_lines int_of url quality lines available)"
  by (simp add: quality_line_def selects_def split: option.split)

lemma listed_bitrates_Cons:
  "listed_bitrates int_of (line # lines) =
     (if quality_line line then the (int_of (strip_quality line)) # listed_bitrates int_of lines
      else listed_bitrates int_of lines)"
  by (simp add: listed_bitrates_def)

lemma get_quality_lines_find:
  assumes "\<forall>line\<in>set lines. quality_line line \<longrightarrow> int_of (strip_quality line) \<noteq> None"
  shows "get_quality_lines int_of url quality lines available =
    (case find (selects quality) lines of
       Some line \<Rightarrow> Inr (replace_last_segment url line)
     | None \<Rightarrow>
         Inl (ArgumentError
           (quality_message (sort (available @ listed_bitrates int_of lines)))))"
  using assms
proof (induction lines arbitrary: available)
  case Nil
  then show ?case by (simp add: listed_bitrates_def)
next
  case (Cons line lines)
  have IH: "get_quality_lines int_of url quality lines av =
    (case find (selects quality) lines of
       Some line \<Rightarrow> Inr (replace_last_segment url line)
     | None \<Rightarrow>
         Inl (ArgumentError (quality_message (sort (av @ listed_bitrates int_of lines)))))"
    for av
    using Cons.prems by (intro Cons.IH) simp
  show ?case
  proof (cases "quality_line line")
    case False
    then have "\<not> selects quality line"
      using selects_quality_line by blast
    with False show ?thesis
      by (simp only: get_quality_lines_Cons listed_bitrates_Cons IH find.simps if_False)
  next
    case True
    with Cons.prems obtain q where q: "int_of (strip_quality line) = Some q"
      by auto
    show ?thesis
    proof (cases "selects quality line")
      case True
      with \<open>quality_line line\<close> q show ?thesis
        by (simp only: get_quality_lines_Cons find.simps if_True option.case)
    next
      case False
      with \<open>quality_line line\<close> q show ?thesis
        by (simp only: get_quality_lines_Cons listed_bitrates_Cons IH find.simps if_True if_False
            option.case option.sel append_assoc append_Cons append_Nil)
    qed
  qed
qed

lemma get_quality_lines_start:
  assumes "\<forall>line\<in>set lines. quality_line line \<longrightarrow> int_of (strip_quality line) \<noteq> None"
  shows "get_quality_lines int_of url quality lines [] =
    (case find (selects quality) lines of
       Some line \<Rightarrow> Inr (replace_last_segment url line)
     | None \<Rightarrow> Inl (ArgumentError (quality_message (sort (listed_bitrates int_of lines)))))"
  using get_quality_lines_find [OF assms, of url quality "[]"]
  by (simp only: append_Nil)

text \<open>The decimal digits of a number determine it.\<close>

lemma below_ten:
  "d < 10 \<Longrightarrow> d = 0 \<or> d = 1 \<or> d = 2 \<or> d = 3 \<or> d = 4 \<or> d = 5 \<or> d = 6 \<or> d = 7 \<or> d = 8
     \<or> d = (9::nat)"
  by arith

lemma digit_char_value: "d < 10 \<Longrightarrow> of_char (digit_char d) = 48 + d"
  by (drule below_ten) (auto simp: digit_char_def)

lemma read_digits_append:
  "read_digits acc (xs @ ys) =
     (case read_digits acc xs of None \<Rightarrow> None | Some a \<Rightarrow> read_digits a ys)"
  by (induction xs arbitrary: acc) simp_all

lemma read_digits_digit: "d < 10 \<Longrightarrow> read_digits acc [digit_char d] = Some (10 * acc + d)"
  by (simp add: digit_char_value)

lemma read_digits_str_nat:
  "\<exists>k. read_digits acc (str_nat n) = Some (acc * 10 ^ k + n)"
proof (induction n arbitrary: acc rule: str_nat.induct)
  case (1 n)
  show ?case
  proof (cases "n < 10")
    case True
    then have "str_nat n = [digit_char n]"
      by (simp add: str_nat.simps [of n])
    with True have "read_digits acc (str_nat n) = Some (acc * 10 ^ 1 + n)"
      by (simp add: digit_char_value)
    then show ?thesis
      by blast
  next
    case False
    with "1.IH" obtain k where k: "read_digits acc (str_nat (n div 10)) = Some (acc * 10 ^ k + n div 10)"
      by blast
    have split: "str_nat n = str_nat (n div 10) @ [digit_char (n mod 10)]"
      using False by (simp add: str_nat.simps [of n])
    have "n mod 10 < 10"
      by simp
    then have last: "read_digits a [digit_char (n mod 10)] = Some (10 * a + n mod 10)" for a
      by (simp add: digit_char_value)
    have "read_digits acc (str_nat n) = Some (10 * (acc * 10 ^ k + n div 10) + n mod 10)"
      by (simp only: split read_digits_append k option.case last)
    moreover have "10 * (acc * 10 ^ k + n div 10) + n mod 10 = acc * 10 ^ Suc k + n"
    proof -
      have "10 * (n div 10) + n mod 10 = n"
        by simp
      then show ?thesis
        by (simp add: distrib_left mult.commute mult.left_commute)
    qed
    ultimately show ?thesis
      by metis
  qed
qed

lemma read_str_nat: "read_digits 0 (str_nat n) = Some n"
proof -
  obtain k where "read_digits 0 (str_nat n) = Some (0 * 10 ^ k + n)"
    using read_digits_str_nat by blast
  then show ?thesis
    by simp
qed

lemma str_nat_inject:
  assumes "str_nat n = str_nat m"
  shows "n = m"
proof -
  have "Some n = read_digits 0 (str_nat n)"
    by (simp only: read_str_nat)
  also have "\<dots> = read_digits 0 (str_nat m)"
    by (simp only: assms)
  also have "\<dots> = Some m"
    by (simp only: read_str_nat)
  finally show ?thesis
    by simp
qed

lemma str_nat_unfold:
  "n < 10 \<Longrightarrow> str_nat n = [digit_char n]"
  "\<not> n < 10 \<Longrightarrow> str_nat n = str_nat (n div 10) @ [digit_char (n mod 10)]"
  by (simp_all add: str_nat.simps [of n])

lemma str_nat_not_Nil: "str_nat n \<noteq> []"
  by (cases "n < 10") (simp_all add: str_nat_unfold)

lemma digit_char_in: "d < 10 \<Longrightarrow> digit_char d \<in> set ''0123456789''"
  by (drule below_ten) (auto simp: digit_char_def)

lemma str_nat_decimal: "set (str_nat n) \<subseteq> set ''0123456789''"
proof (induction n rule: str_nat.induct)
  fix n
  assume shorter: "\<not> n < 10 \<Longrightarrow> set (str_nat (n div 10)) \<subseteq> set ''0123456789''"
  have last: "digit_char (n mod 10) \<in> set ''0123456789''"
    by (rule digit_char_in) simp
  show "set (str_nat n) \<subseteq> set ''0123456789''"
  proof (cases "n < 10")
    case True
    then have "str_nat n = [digit_char n]"
      by (rule str_nat_unfold(1))
    with True digit_char_in [of n] show ?thesis
      by simp
  next
    case False
    then have "str_nat n = str_nat (n div 10) @ [digit_char (n mod 10)]"
      by (rule str_nat_unfold(2))
    moreover from False have "set (str_nat (n div 10)) \<subseteq> set ''0123456789''"
      by (rule shorter)
    ultimately show ?thesis
      using last by simp
  qed
qed

lemma str_int_inject: "str_int i = str_int j \<Longrightarrow> i = j"
proof -
  assume eq: "str_int i = str_int j"
  have no_minus: "hd (str_nat n) \<noteq> CHR ''-''" for n
  proof -
    have "hd (str_nat n) \<in> set (str_nat n)"
      using str_nat_not_Nil by (rule hd_in_set)
    with str_nat_decimal have "hd (str_nat n) \<in> set ''0123456789''"
      by blast
    then show ?thesis
      by auto
  qed
  show "i = j"
  proof (cases "i < 0")
    case True
    show ?thesis
    proof (cases "j < 0")
      case True
      with \<open>i < 0\<close> eq have "str_nat (nat (- i)) = str_nat (nat (- j))"
        by (simp add: str_int_def)
      then have "nat (- i) = nat (- j)"
        by (rule str_nat_inject)
      with True \<open>i < 0\<close> show ?thesis
        by simp
    next
      case False
      with \<open>i < 0\<close> eq have "CHR ''-'' # str_nat (nat (- i)) = str_nat (nat j)"
        by (simp add: str_int_def)
      then have "hd (str_nat (nat j)) = CHR ''-''"
        by (metis list.sel(1))
      with no_minus show ?thesis
        by blast
    qed
  next
    case False
    show ?thesis
    proof (cases "j < 0")
      case True
      with \<open>\<not> i < 0\<close> eq have "str_nat (nat i) = CHR ''-'' # str_nat (nat (- j))"
        by (simp add: str_int_def)
      then have "hd (str_nat (nat i)) = CHR ''-''"
        by (metis list.sel(1))
      with no_minus show ?thesis
        by blast
    next
      case False
      with \<open>\<not> i < 0\<close> eq have "str_nat (nat i) = str_nat (nat j)"
        by (simp add: str_int_def)
      then have "nat i = nat j"
        by (rule str_nat_inject)
      with False \<open>\<not> i < 0\<close> show ?thesis
        by simp
    qed
  qed
qed

lemma str_int_chars: "CHR '')'' \<notin> set (str_int i)"
proof -
  have "CHR '')'' \<notin> set (str_nat n)" for n
    using str_nat_decimal [of n] by auto
  then show ?thesis
    by (simp add: str_int_def)
qed

lemma prefix_up_to_mark:
  assumes "prefix (xs @ c # a) (ys @ c # b)" and "c \<notin> set xs" and "c \<notin> set ys"
  shows "xs = ys"
  using assms
proof (induction xs arbitrary: ys)
  case Nil
  then show ?case by (cases ys) auto
next
  case (Cons x xs)
  then show ?case by (cases ys) auto
qed

text \<open>
  For a line that reads \<^verbatim>\<open>QualityLevels(<bitrate>)/Manifest...\<close>, the test of the method
  is the test of the bitrate.
\<close>

lemma selects_by_bitrate:
  "selects quality (''QualityLevels('' @ str_int n @ '')/Manifest'' @ rest) \<longleftrightarrow> n = quality"
proof
  assume "n = quality"
  then show "selects quality (''QualityLevels('' @ str_int n @ '')/Manifest'' @ rest)"
    by (simp add: selects_def startswith_def)
next
  assume "selects quality (''QualityLevels('' @ str_int n @ '')/Manifest'' @ rest)"
  then have "prefix (str_int quality @ CHR '')'' # ''/Manifest'')
      (str_int n @ CHR '')'' # (''/Manifest'' @ rest))"
    by (simp add: selects_def startswith_def)
  then have "str_int quality = str_int n"
    by (rule prefix_up_to_mark) (rule str_int_chars)+
  then show "n = quality"
    by (simp add: str_int_inject)
qed

text \<open>
  C2, as the code has it. When the listing is fetched and every line that starts with
  \<^verbatim>\<open>QualityLevels\<close> carries an integer, \<^verbatim>\<open>get_quality\<close> returns the URL whose last segment
  is replaced by the first line that starts with \<^verbatim>\<open>QualityLevels(<quality>)/Manifest\<close>, if
  and only if there is such a line; otherwise it raises the \<^verbatim>\<open>ArgumentError\<close> whose message
  lists the bitrates of all \<^verbatim>\<open>QualityLevels\<close> lines in ascending order. A line that reads
  \<^verbatim>\<open>QualityLevels(<bitrate>)/Manifest...\<close> starts so if and only if its bitrate is the
  requested quality.
\<close>

theorem get_quality_selects:
  assumes "trying_get net url no_kwargs self_max_attempts self_wait w = Some (Inr (Some r), w')"
    and "\<forall>line\<in>set (lines_of (resp_content r)).
           quality_line line \<longrightarrow> int_of (strip_quality line) \<noteq> None"
  shows "get_quality int_of net self_max_attempts self_wait url quality w =
      Some (case find (selects quality) (lines_of (resp_content r)) of
              Some line \<Rightarrow> Inr (replace_last_segment url line)
            | None \<Rightarrow>
                Inl (ArgumentError
                  (quality_message (sort (listed_bitrates int_of (lines_of (resp_content r)))))),
            w')
    \<and> (\<forall>n rest.
          selects quality (''QualityLevels('' @ str_int n @ '')/Manifest'' @ rest) \<longleftrightarrow> n = quality)"
  using assms(1) selects_by_bitrate
  by (simp add: get_quality_def get_quality_lines_start [OF assms(2)])

lemma three_levels_fetched:
  "trying_get net_three_levels master_url no_kwargs 10 10 world0 =
     Some (Inr (Some ((empty_page master_url)\<lparr>resp_content := three_levels\<rparr>)),
       issue_get master_url world0)"
  by (simp add: trying_get_def trying_get_loop.simps net_three_levels_def)

lemma three_levels_lines:
  "lines_of three_levels =
    [''#EXTM3U'',
     ''QualityLevels(1200000)/Manifest(video,format=m3u8-aapl)'',
     ''QualityLevels(5000000)/Manifest(video,format=m3u8-aapl)'',
     ''QualityLevels(3200000)/Manifest(video,format=m3u8-aapl)'',
     '''']"
  by (simp add: lines_of_def three_levels_def newline_def carriage_return_def)


lemma str_3200000: "str_int 3200000 = ''3200000''"
  by (simp add: str_int_def str_nat.simps digit_char_def)

lemma str_9999999: "str_int 9999999 = ''9999999''"
  by (simp add: str_int_def str_nat.simps digit_char_def)

lemma three_levels_parse:
  "\<forall>line\<in>set (lines_of three_levels).
      quality_line line \<longrightarrow> decimal_int (strip_quality line) \<noteq> None"
  unfolding three_levels_lines by (simp add: quality_line_def startswith_def)

lemma three_levels_found:
  "find (selects 3200000) (lines_of three_levels) = Some ''QualityLevels(3200000)/Manifest(video,format=m3u8-aapl)''"
  unfolding three_levels_lines by (simp add: selects_def startswith_def str_3200000)

lemma three_levels_missing:
  "find (selects 9999999) (lines_of three_levels) = None"
  unfolding three_levels_lines by (simp add: selects_def startswith_def str_9999999)

lemma three_levels_listed:
  "sort (listed_bitrates decimal_int (lines_of three_levels)) = [1200000, 3200000, 5000000]"
  unfolding three_levels_lines by (simp add: listed_bitrates_def quality_line_def startswith_def)

lemma master_url_rewritten: "replace_last_segment master_url ''QualityLevels(3200000)/Manifest(video,format=m3u8-aapl)'' =
  ''https://host/video.ism/QualityLevels(3200000)/Manifest(video,format=m3u8-aapl)''"
  by (simp add: replace_last_segment_def master_url_def)


theorem get_quality_selects_witness:
  "get_quality decimal_int net_three_levels 10 10 master_url 3200000 world0 =
     Some (Inr ''https://host/video.ism/QualityLevels(3200000)/Manifest(video,format=m3u8-aapl)'',
           issue_get master_url world0)
   \<and> get_quality decimal_int net_three_levels 10 10 master_url 9999999 world0 =
     Some (Inl (ArgumentError (quality_message [1200000, 3200000, 5000000])),
           issue_get master_url world0)"
proof -
  let ?r = "(empty_page master_url)\<lparr>resp_content := three_levels\<rparr>"
  have parse: "\<forall>line\<in>set (lines_of (resp_content ?r)).
      quality_line line \<longrightarrow> decimal_int (strip_quality line) \<noteq> None"
    using three_levels_parse by simp
  show ?thesis
    using get_quality_selects [OF three_levels_fetched parse, where quality = 3200000,
        THEN conjunct1]
      get_quality_selects [OF three_levels_fetched parse, where quality = 9999999,
        THEN conjunct1]
    by (simp add: three_levels_found three_levels_missing three_levels_listed master_url_rewritten)
qed

lemma str_1200000: "str_int 1200000 = ''1200000''"
  by (simp add: str_int_def str_nat.simps digit_char_def)

lemma bare_level_lines:
  "lines_of bare_level =
    [''QualityLevels(1200000)/Manifest(video,format=m3u8-aapl)'', ''QualityLevels(3200000)'']"
  by (simp add: lines_of_def bare_level_def newline_def carriage_return_def)

text \<open>
  A bitrate that is listed is not enough: a line \<^verbatim>\<open>QualityLevels(3200000)\<close> with no
  \<^verbatim>\<open>/Manifest\<close> after it puts 3200000 among the available levels, and the request for
  3200000 is refused with a message that offers 3200000.
\<close>

theorem get_quality_bare_level_counterexample:
  "get_quality decimal_int net_bare_level 10 10 master_url 3200000 world0 =
     Some (Inl (ArgumentError (quality_message [1200000, 3200000])), issue_get master_url world0)
   \<and> 3200000 \<in> set (listed_bitrates decimal_int (lines_of bare_level))"
  by (simp add: get_quality_def trying_get_def trying_get_loop.simps net_bare_level_def
      bare_level_lines startswith_def str_3200000 listed_bitrates_def quality_line_def)

section \<open>Properties of the fragment catalog\<close>



lemma three_fragments_lines:
  "lines_of three_fragments =
     [''#EXTM3U'', ''#EXTINF:2.0,no-desc'', ''Fragments(video=0,format=m3u8-aapl)'',
      ''#EXTINF:3.5,no-desc'', ''Fragments(video=20000000,format=m3u8-aapl)'',
      ''#EXTINF:1.5,no-desc'', ''Fragments(video=55000000,format=m3u8-aapl)'',
      ''#EXT-X-ENDLIST'']"
  by (simp add: lines_of_def three_fragments_def newline_def carriage_return_def)

lemma three_fragments_seconds:
  "collect (extinf_seconds decimal_real) (extinf_lines three_fragments) = Inr [2, 3.5, 1.5]"
  by (simp add: extinf_lines_def three_fragments_lines startswith_def extinf_seconds_def
      decimal_real_def)

lemma three_fragments_paths:
  "fragment_paths fragments_url three_fragments =
     [''https://host/video.ism/QualityLevels(3200000)/Fragments(video=0,format=m3u8-aapl)'',
      ''https://host/video.ism/QualityLevels(3200000)/Fragments(video=20000000,format=m3u8-aapl)'',
      ''https://host/video.ism/QualityLevels(3200000)/Fragments(video=55000000,format=m3u8-aapl)'']"
  by (simp add: fragment_paths_def three_fragments_lines startswith_def fragments_url_def)


section \<open>Properties of \<^verbatim>\<open>get_manifest\<close>\<close>

lemma get_manifest_landing_refused:
  assumes "\<not> contains url ''/Manifest''" and "\<not> contains url ''/manifest''"
    and "\<forall>k<10. net (requests w + k) url no_kwargs = Fails (e k) \<and> is_connection_error (e k)"
  shows "get_manifest int_of mp net sma sw url quality max_attempts wait w =
     Some (Inl (e 9),
       w\<lparr>requests := requests w + 10, events := events w @ exhausted_events url 10 10\<rparr>)"
proof -
  have "\<forall>k<nat 10. net (requests w + k) url no_kwargs = Fails (e k) \<and> is_connection_error (e k)"
    using assms(3) by simp
  from trying_get_all_refused [where e = e and net = net and w = w and url = url
      and kw = no_kwargs and max_attempts = 10 and wait = 10, OF _ _ this]
  have "trying_get net url no_kwargs MAX_ATTEMPTS WAIT w =
     Some (Inl (e 9),
       w\<lparr>requests := requests w + 10, events := events w @ exhausted_events url 10 10\<rparr>)"
    by (simp add: MAX_ATTEMPTS_def WAIT_def)
  with assms(1,2) show ?thesis
    by (subst get_manifest.simps) simp
qed

lemma get_manifest_api_refused:
  assumes "\<not> contains url ''/Manifest''" and "\<not> contains url ''/manifest''"
    and "net (requests w) url no_kwargs = Ok r"
    and "filter (\<lambda>c. cookie_name c = ''JSESSIONID'') (resp_cookies r) = c # cs"
    and "get_video_id r = Inr video_id"
    and "1 \<le> max_attempts" and "0 \<le> wait"
    and "\<forall>k<nat max_attempts.
           net (Suc (requests w) + k) (api_url video_id) (api_kwargs c r) = Fails (e k)
           \<and> is_connection_error (e k)"
  shows "get_manifest int_of mp net sma sw url quality max_attempts wait w =
     Some (Inl (e (nat max_attempts - 1)),
       w\<lparr>requests := Suc (requests w) + nat max_attempts,
         events := events w @ [Get url] @ exhausted_events (api_url video_id) max_attempts wait\<rparr>)"
proof -
  have landing: "trying_get net url no_kwargs MAX_ATTEMPTS WAIT w =
      Some (Inr (Some r), issue_get url w)"
    using assms(3) by (intro trying_get_answered) (simp_all add: MAX_ATTEMPTS_def)
  have "\<forall>k<nat max_attempts.
      net (requests (issue_get url w) + k) (api_url video_id) (api_kwargs c r) = Fails (e k)
      \<and> is_connection_error (e k)"
    using assms(8) by (simp add: issue_get_simps)
  from trying_get_all_refused [where e = e and net = net and w = "issue_get url w"
      and url = "api_url video_id" and kw = "api_kwargs c r", OF assms(6,7) this]
  have api: "trying_get net (api_url video_id) (api_kwargs c r) max_attempts wait (issue_get url w) =
      Some (Inl (e (nat max_attempts - 1)),
        w\<lparr>requests := Suc (requests w) + nat max_attempts,
          events := events w @ [Get url] @ exhausted_events (api_url video_id) max_attempts wait\<rparr>)"
    by (simp add: issue_get_def emit_def)
  from assms(1,2,4,5) landing api show ?thesis
    by (subst get_manifest.simps) simp
qed


lemma get_manifest_listing_refused:
  assumes "\<not> contains url ''/Manifest''" and "\<not> contains url ''/manifest''"
    and "net (requests w) url no_kwargs = Ok r"
    and "filter (\<lambda>c. cookie_name c = ''JSESSIONID'') (resp_cookies r) = c # cs"
    and "get_video_id r = Inr video_id"
    and "max_attempts \<noteq> 0"
    and "net (Suc (requests w)) (api_url video_id) (api_kwargs c r) = Ok r2"
    and "mp (resp_content r2) = Inr url'"
    and "\<not> contains url' ''/Manifest''" and "contains url' ''/manifest''"
    and "1 \<le> sma" and "0 \<le> sw"
    and "\<forall>k<nat sma. net (Suc (Suc (requests w)) + k) url' no_kwargs = Fails (e k)
           \<and> is_connection_error (e k)"
  shows "get_manifest int_of mp net sma sw url quality max_attempts wait w =
     Some (Inl (e (nat sma - 1)),
       w\<lparr>requests := Suc (Suc (requests w)) + nat sma,
         events := events w @ [Get url, Get (api_url video_id)] @ exhausted_events url' sma sw\<rparr>)"
proof -
  let ?w1 = "issue_get url w"
  let ?w2 = "issue_get (api_url video_id) ?w1"
  have landing: "trying_get net url no_kwargs MAX_ATTEMPTS WAIT w = Some (Inr (Some r), ?w1)"
    using assms(3) by (intro trying_get_answered) (simp_all add: MAX_ATTEMPTS_def)
  have api: "trying_get net (api_url video_id) (api_kwargs c r) max_attempts wait ?w1 =
      Some (Inr (Some r2), ?w2)"
    using assms(6,7) by (intro trying_get_answered) (simp_all add: issue_get_simps)
  have "\<forall>k<nat sma. net (requests ?w2 + k) url' no_kwargs = Fails (e k)
      \<and> is_connection_error (e k)"
    using assms(13) by (simp add: issue_get_simps)
  from trying_get_all_refused [where e = e and net = net and w = ?w2
      and url = url' and kw = no_kwargs, OF assms(11,12) this]
  have listing: "trying_get net url' no_kwargs sma sw ?w2 =
      Some (Inl (e (nat sma - 1)),
        w\<lparr>requests := Suc (Suc (requests w)) + nat sma,
          events := events w @ [Get url, Get (api_url video_id)] @ exhausted_events url' sma sw\<rparr>)"
    by (simp add: issue_get_def emit_def)
  have inner: "get_manifest int_of mp net sma sw url' quality max_attempts wait ?w2 =
      Some (Inl (e (nat sma - 1)),
        w\<lparr>requests := Suc (Suc (requests w)) + nat sma,
          events := events w @ [Get url, Get (api_url video_id)] @ exhausted_events url' sma sw\<rparr>)"
    using assms(9,10) listing by (subst get_manifest.simps) (simp add: get_quality_def)
  from assms(1,2,4,5,8) landing api inner show ?thesis
    by (subst get_manifest.simps) simp
qed

text \<open>
  C8. For a URL that is neither a fragment manifest nor a quality listing:
  \<^item> if the network refuses the landing page ten times, \<^verbatim>\<open>get_manifest\<close> raises the tenth
    error after ten requests with pauses of ten seconds, whatever \<open>max_attempts\<close> and
    \<open>wait\<close> the caller has given;
  \<^item> if the landing page is served and the network refuses the API call, the call is made
    \<open>max_attempts\<close> times with pauses of \<open>wait\<close> seconds;
  \<^item> if both are served and the API names a quality listing that the network refuses, the
    listing is requested as many times and with the pauses that the object has stored
    (\<^verbatim>\<open>self._max_attempts\<close>, \<^verbatim>\<open>self._wait\<close>, which the constructor sets from its caller's
    \<open>max_attempts\<close> and \<open>wait\<close>).
\<close>

theorem get_manifest_landing_page_policy:
  assumes "\<not> contains url ''/Manifest''" and "\<not> contains url ''/manifest''"
  shows
    "((\<forall>k<10. net (requests w + k) url no_kwargs = Fails (e k) \<and> is_connection_error (e k)) \<longrightarrow>
        get_manifest int_of mp net sma sw url quality max_attempts wait w =
          Some (Inl (e 9),
            w\<lparr>requests := requests w + 10, events := events w @ exhausted_events url 10 10\<rparr>))
     \<and> (net (requests w) url no_kwargs = Ok r
        \<and> filter (\<lambda>c. cookie_name c = ''JSESSIONID'') (resp_cookies r) = c # cs
        \<and> get_video_id r = Inr video_id \<longrightarrow>
          (1 \<le> max_attempts \<and> 0 \<le> wait
           \<and> (\<forall>k<nat max_attempts.
                 net (Suc (requests w) + k) (api_url video_id) (api_kwargs c r) = Fails (e k)
                 \<and> is_connection_error (e k)) \<longrightarrow>
             get_manifest int_of mp net sma sw url quality max_attempts wait w =
               Some (Inl (e (nat max_attempts - 1)),
                 w\<lparr>requests := Suc (requests w) + nat max_attempts,
                   events := events w @ [Get url]
                     @ exhausted_events (api_url video_id) max_attempts wait\<rparr>))
          \<and> (max_attempts \<noteq> 0
             \<and> net (Suc (requests w)) (api_url video_id) (api_kwargs c r) = Ok r2
             \<and> mp (resp_content r2) = Inr url'
             \<and> \<not> contains url' ''/Manifest'' \<and> contains url' ''/manifest''
             \<and> 1 \<le> sma \<and> 0 \<le> sw
             \<and> (\<forall>k<nat sma. net (Suc (Suc (requests w)) + k) url' no_kwargs = Fails (e k)
                   \<and> is_connection_error (e k)) \<longrightarrow>
             get_manifest int_of mp net sma sw url quality max_attempts wait w =
               Some (Inl (e (nat sma - 1)),
                 w\<lparr>requests := Suc (Suc (requests w)) + nat sma,
                   events := events w @ [Get url, Get (api_url video_id)]
                     @ exhausted_events url' sma sw\<rparr>)))"
proof (intro conjI impI)
  assume "\<forall>k<10. net (requests w + k) url no_kwargs = Fails (e k) \<and> is_connection_error (e k)"
  with assms show "get_manifest int_of mp net sma sw url quality max_attempts wait w =
      Some (Inl (e 9),
        w\<lparr>requests := requests w + 10, events := events w @ exhausted_events url 10 10\<rparr>)"
    by (rule get_manifest_landing_refused)
next
  assume page: "net (requests w) url no_kwargs = Ok r
      \<and> filter (\<lambda>c. cookie_name c = ''JSESSIONID'') (resp_cookies r) = c # cs
      \<and> get_video_id r = Inr video_id"
    and api: "1 \<le> max_attempts \<and> 0 \<le> wait
      \<and> (\<forall>k<nat max_attempts.
            net (Suc (requests w) + k) (api_url video_id) (api_kwargs c r) = Fails (e k)
            \<and> is_connection_error (e k))"
  show "get_manifest int_of mp net sma sw url quality max_attempts wait w =
      Some (Inl (e (nat max_attempts - 1)),
        w\<lparr>requests := Suc (requests w) + nat max_attempts,
          events := events w @ [Get url]
            @ exhausted_events (api_url video_id) max_attempts wait\<rparr>)"
    by (rule get_manifest_api_refused [where r = r and cs = cs and e = e])
      (use assms page api in auto)
next
  assume page: "net (requests w) url no_kwargs = Ok r
      \<and> filter (\<lambda>c. cookie_name c = ''JSESSIONID'') (resp_cookies r) = c # cs
      \<and> get_video_id r = Inr video_id"
    and listing: "max_attempts \<noteq> 0
      \<and> net (Suc (requests w)) (api_url video_id) (api_kwargs c r) = Ok r2
      \<and> mp (resp_content r2) = Inr url'
      \<and> \<not> contains url' ''/Manifest'' \<and> contains url' ''/manifest''
      \<and> 1 \<le> sma \<and> 0 \<le> sw
      \<and> (\<forall>k<nat sma. net (Suc (Suc (requests w)) + k) url' no_kwargs = Fails (e k)
            \<and> is_connection_error (e k))"
  show "get_manifest int_of mp net sma sw url quality max_attempts wait w =
      Some (Inl (e (nat sma - 1)),
        w\<lparr>requests := Suc (Suc (requests w)) + nat sma,
          events := events w @ [Get url, Get (api_url video_id)]
            @ exhausted_events url' sma sw\<rparr>)"
    by (rule get_manifest_listing_refused [where r = r and cs = cs and ?r2.0 = r2 and e = e])
      (use assms page listing in auto)
qed


lemma landing_url_shape:
  "\<not> contains landing_url ''/Manifest''" "\<not> contains landing_url ''/manifest''"
  by (simp_all add: landing_url_def)

lemma master_url_shape:
  "\<not> contains master_url ''/Manifest''" "contains master_url ''/manifest''"
  by (simp_all add: master_url_def)

lemma landing_page_facts:
  "filter (\<lambda>c. cookie_name c = ''JSESSIONID'') (resp_cookies landing_page) = [session_cookie]"
  "get_video_id landing_page = Inr ''6912''"
  by (simp_all add: landing_page_def empty_page_def session_cookie_def get_video_id_def
      landing_url_def)

lemma sample_urls_differ:
  "api_url ''6912'' \<noteq> landing_url" "master_url \<noteq> landing_url" "master_url \<noteq> api_url ''6912''"
  by (simp_all add: api_url_def landing_url_def master_url_def)

theorem get_manifest_landing_page_policy_witness:
  "get_manifest decimal_int body_is_playlist net_down 1 0 landing_url DEF_QUALITY 1 0 world0 =
     Some (Inl (ConnectionError 9),
       world0\<lparr>requests := 10, events := exhausted_events landing_url 10 10\<rparr>)
   \<and> get_manifest decimal_int body_is_playlist net_api_down 2 3 landing_url DEF_QUALITY 2 3 world0 =
     Some (Inl (ConnectionError 2),
       world0\<lparr>requests := 3,
         events := [Get landing_url] @ exhausted_events (api_url ''6912'') 2 3\<rparr>)
   \<and> get_manifest decimal_int body_is_playlist net_listing_down 2 3 landing_url DEF_QUALITY 2 3 world0 =
     Some (Inl (ConnectionError 3),
       world0\<lparr>requests := 4,
         events := [Get landing_url, Get (api_url ''6912'')] @ exhausted_events master_url 2 3\<rparr>)"
proof -
  note policy = get_manifest_landing_page_policy [OF landing_url_shape]
  have refused: "get_manifest decimal_int body_is_playlist net_down 1 0 landing_url DEF_QUALITY 1 0 world0 =
     Some (Inl (ConnectionError 9),
       world0\<lparr>requests := 10, events := exhausted_events landing_url 10 10\<rparr>)"
    using policy [where net = net_down and w = world0 and e = ConnectionError, THEN conjunct1]
    by (simp add: net_down_def world0_def)
  have api: "get_manifest decimal_int body_is_playlist net_api_down 2 3 landing_url DEF_QUALITY 2 3 world0 =
     Some (Inl (ConnectionError 2),
       world0\<lparr>requests := 3,
         events := [Get landing_url] @ exhausted_events (api_url ''6912'') 2 3\<rparr>)"
    using policy [where net = net_api_down and w = world0 and e = "\<lambda>k. ConnectionError (Suc k)"
        and r = landing_page and c = session_cookie and cs = "[]" and video_id = "''6912''"
        and max_attempts = 2 and wait = 3,
        THEN conjunct2, THEN mp, THEN conjunct1]
    by (simp add: net_api_down_def world0_def landing_page_facts sample_urls_differ)
  have listing: "get_manifest decimal_int body_is_playlist net_listing_down 2 3 landing_url DEF_QUALITY 2 3 world0 =
     Some (Inl (ConnectionError 3),
       world0\<lparr>requests := 4,
         events := [Get landing_url, Get (api_url ''6912'')] @ exhausted_events master_url 2 3\<rparr>)"
    using policy [where net = net_listing_down and w = world0
        and e = "\<lambda>k. ConnectionError (Suc (Suc k))"
        and r = landing_page and c = session_cookie and cs = "[]" and video_id = "''6912''"
        and max_attempts = 2 and ?r2.0 = api_page and mp = body_is_playlist and url' = master_url
        and sma = 2 and sw = 3,
        THEN conjunct2, THEN mp, THEN conjunct2]
    by (simp add: net_listing_down_def world0_def landing_page_facts sample_urls_differ
        master_url_shape api_page_def empty_page_def body_is_playlist_def)
  from refused api listing show ?thesis
    by simp
qed

section \<open>Properties of the stitcher\<close>

text \<open>
  What every returning call of the retry loop has done: it has taken no temporary name,
  it has logged request events only, and a response it returns is one that the network
  has given for this URL and these arguments.
\<close>

lemma trying_get_loop_effect:
  assumes ret: "trying_get_loop net url kw m wait a w = Some y"
  shows "tmp_names (snd y) = tmp_names w
    \<and> (\<exists>evs. events (snd y) = events w @ evs \<and> list_all request_event evs)
    \<and> (\<forall>r. fst y = Inr (Some r) \<longrightarrow> (\<exists>k. net k url kw = Ok r))"
proof (rule trying_get_loop.raw_induct
    [where P = "\<lambda>net url kw m wait a w y. tmp_names (snd y) = tmp_names w
      \<and> (\<exists>evs. events (snd y) = events w @ evs \<and> list_all request_event evs)
      \<and> (\<forall>r. fst y = Inr (Some r) \<longrightarrow> (\<exists>k. net k url kw = Ok r))", OF _ ret])
  fix f :: "network \<Rightarrow> string \<Rightarrow> kwargs \<Rightarrow> int \<Rightarrow> int \<Rightarrow> int \<Rightarrow> world
      \<Rightarrow> ((error + response option) \<times> world) option"
  fix net url kw m wait a w y
  assume IH: "\<And>net url kw m wait a w y. f net url kw m wait a w = Some y \<Longrightarrow>
      tmp_names (snd y) = tmp_names w
      \<and> (\<exists>evs. events (snd y) = events w @ evs \<and> list_all request_event evs)
      \<and> (\<forall>r. fst y = Inr (Some r) \<longrightarrow> (\<exists>k. net k url kw = Ok r))"
  assume eq: "(if a = 0 then Some (Inr None, w)
      else case net (requests w) url kw of
           Ok r \<Rightarrow> Some (Inr (Some r), issue_get url w)
           | Fails e \<Rightarrow>
               if is_connection_error e
               then let attempts' = a - 1;
                        w' = emit (Warn url (m - attempts') m wait) (issue_get url w)
                    in if attempts' = 0 then Some (Inl e, w')
                       else if wait < 0 then Some (Inl ValueError, w')
                            else f net url kw m wait attempts' (emit (Sleep wait) w')
               else Some (Inl e, issue_get url w)) = Some y"
  let ?w' = "emit (Warn url (m - (a - 1)) m wait) (issue_get url w)"
  have cases: "(a = 0 \<and> y = (Inr None, w))
      \<or> (\<exists>r. net (requests w) url kw = Ok r \<and> y = (Inr (Some r), issue_get url w))
      \<or> (\<exists>e. y = (Inl e, issue_get url w))
      \<or> (\<exists>e. y = (Inl e, ?w'))
      \<or> f net url kw m wait (a - 1) (emit (Sleep wait) ?w') = Some y"
  proof (cases "a = 0")
    case True
    with eq show ?thesis by simp
  next
    case False
    note a = this
    show ?thesis
    proof (cases "net (requests w) url kw")
      case (Ok r)
      with a eq show ?thesis by simp
    next
      case (Fails e)
      show ?thesis
      proof (cases "is_connection_error e")
        case False
        with a Fails eq show ?thesis by auto
      next
        case True
        show ?thesis
        proof (cases "a - 1 = 0")
          case True
          with a Fails \<open>is_connection_error e\<close> eq show ?thesis by (auto simp: Let_def)
        next
          case False
          with a Fails \<open>is_connection_error e\<close> eq show ?thesis
            by (cases "wait < 0") (auto simp: Let_def)
        qed
      qed
    qed
  qed
  then consider (stop) "a = 0" "y = (Inr None, w)"
    | (ok) r where "net (requests w) url kw = Ok r" "y = (Inr (Some r), issue_get url w)"
    | (fatal) e where "y = (Inl e, issue_get url w)"
    | (last) e where "y = (Inl e, ?w')"
    | (again) "f net url kw m wait (a - 1) (emit (Sleep wait) ?w') = Some y"
    by blast
  then show "tmp_names (snd y) = tmp_names w
      \<and> (\<exists>evs. events (snd y) = events w @ evs \<and> list_all request_event evs)
      \<and> (\<forall>r. fst y = Inr (Some r) \<longrightarrow> (\<exists>k. net k url kw = Ok r))"
  proof cases
    case stop
    then show ?thesis by simp
  next
    case ok
    have "events (issue_get url w) = events w @ [Get url]" "list_all request_event [Get url]"
      by (simp_all add: issue_get_simps)
    then have "\<exists>evs. events (issue_get url w) = events w @ evs \<and> list_all request_event evs"
      by blast
    with ok show ?thesis by (auto simp: issue_get_simps)
  next
    case fatal
    have "events (issue_get url w) = events w @ [Get url]" "list_all request_event [Get url]"
      by (simp_all add: issue_get_simps)
    then have "\<exists>evs. events (issue_get url w) = events w @ evs \<and> list_all request_event evs"
      by blast
    with fatal show ?thesis by (simp add: issue_get_simps)
  next
    case last
    have "events ?w' = events w @ [Get url, Warn url (m - (a - 1)) m wait]"
      "list_all request_event [Get url, Warn url (m - (a - 1)) m wait]"
      by (simp_all add: issue_get_simps emit_simps)
    then have "\<exists>evs. events ?w' = events w @ evs \<and> list_all request_event evs"
      by blast
    with last show ?thesis by (simp add: issue_get_simps emit_simps)
  next
    case again
    from IH [OF again] obtain evs where
      tmp: "tmp_names (snd y) = tmp_names (emit (Sleep wait) ?w')"
      and evs: "events (snd y) = events (emit (Sleep wait) ?w') @ evs" "list_all request_event evs"
      and resp: "\<forall>r. fst y = Inr (Some r) \<longrightarrow> (\<exists>k. net k url kw = Ok r)"
      by blast
    have "events (snd y) = events w @ ([Get url, Warn url (m - (a - 1)) m wait, Sleep wait] @ evs)"
      using evs(1) by (simp add: issue_get_simps emit_simps)
    moreover have "list_all request_event ([Get url, Warn url (m - (a - 1)) m wait, Sleep wait] @ evs)"
      using evs(2) by simp
    ultimately have "\<exists>evs. events (snd y) = events w @ evs \<and> list_all request_event evs"
      by blast
    with tmp resp show ?thesis
      by (simp add: issue_get_simps emit_simps)
  qed
qed

lemma trying_get_effect:
  assumes "trying_get net url kw m wait w = Some (res, w')"
  shows "tmp_names w' = tmp_names w"
    and "\<exists>evs. events w' = events w @ evs \<and> list_all request_event evs"
    and "res = Inr (Some r) \<Longrightarrow> \<exists>k. net k url kw = Ok r"
  using trying_get_loop_effect [of net url kw m wait m w "(res, w')"] assms
  by (simp_all add: trying_get_def)


lemma start_time_mono:
  assumes "\<forall>d\<in>set ds. 0 \<le> d" and "i \<le> j"
  shows "start_time ds i \<le> start_time ds j"
proof -
  have "take j ds = take i ds @ take (j - i) (drop i ds)"
    using assms(2) by (metis le_add_diff_inverse take_add)
  moreover have "0 \<le> sum_list (take (j - i) (drop i ds))"
    using assms(1) by (intro sum_list_nonneg) (auto dest!: in_set_takeD in_set_dropD)
  ultimately show ?thesis
    by (simp add: start_time_def)
qed


lemma covers_unique:
  assumes "\<forall>d\<in>set ds. 0 \<le> d" and "covers ds i t" and "covers ds j t"
  shows "i = j"
proof (rule ccontr)
  assume "i \<noteq> j"
  then consider "Suc i \<le> j" | "Suc j \<le> i"
    by linarith
  then show False
  proof cases
    case 1
    then have "start_time ds (Suc i) \<le> start_time ds j"
      by (rule start_time_mono [OF assms(1)])
    with 1 assms(2,3) show False
      by (auto simp: covers_def)
  next
    case 2
    then have "start_time ds (Suc j) \<le> start_time ds i"
      by (rule start_time_mono [OF assms(1)])
    with 2 assms(2,3) show False
      by (auto simp: covers_def)
  qed
qed

lemma mktemp_simps:
  "fst (mktemp sfx w) = tmp_names w"
  "requests (snd (mktemp sfx w)) = requests w"
  "tmp_names (snd (mktemp sfx w)) = Suc (tmp_names w)"
  "events (snd (mktemp sfx w)) = events w @ [Mktemp (tmp_names w) sfx]"
  by (simp_all add: mktemp_def emit_def)

lemma audio_file_update_ex: "\<exists>a. self = self\<lparr>audio_file := a\<rparr>"
  by (rule exI [of _ "audio_file self"]) simp

text \<open>\<^verbatim>\<open>_get_next_clip\<close> writes no attribute but \<^verbatim>\<open>audio_file\<close>.\<close>

lemma get_next_clip_frame:
  assumes "get_next_clip decode net self url w = Some ((res, self'), w')"
  shows "\<exists>a. self' = self\<lparr>audio_file := a\<rparr>"
  using assms
  by (auto simp: get_next_clip_def mktemp_def audio_file_update_ex
      split: option.splits sum.splits prod.splits)












lemma start_time_nonneg:
  assumes "\<forall>d\<in>set ds. 0 \<le> d"
  shows "0 \<le> start_time ds i"
  using start_time_mono [OF assms, of 0 i] by (simp add: start_time_def)


lemma start_time_Cons: "start_time (d # ds) (Suc i) = d + start_time ds i"
  by (simp add: start_time_def)

lemma spec_fragment_at_covers:
  assumes "\<forall>d\<in>set ds. 0 \<le> d" and "spec_covers ds i t"
  shows "spec_fragment_at ds t = i"
  using assms
proof (induction ds arbitrary: i t)
  case Nil
  then show ?case by (simp add: spec_covers_def)
next
  case (Cons d ds)
  show ?case
  proof (cases i)
    case 0
    with Cons.prems(2) show ?thesis
      by (simp add: spec_covers_def start_time_def)
  next
    case (Suc j)
    have nonneg: "\<forall>d\<in>set ds. 0 \<le> d"
      using Cons.prems(1) by simp
    from Cons.prems(2) Suc have j: "spec_covers ds j (t - d)"
      by (simp add: spec_covers_def start_time_Cons)
    then have "0 \<le> t - d"
      using start_time_nonneg [OF nonneg, of j] by (simp add: spec_covers_def)
    with Cons.IH [OF nonneg j] Suc show ?thesis
      by simp
  qed
qed





text \<open>
  C10. With the last fragment of the list resident, a request whose time is more than
  the duration of that fragment after its start closes the clip, removes its file and
  raises \<^verbatim>\<open>IndexError\<close>: no frame is returned.
\<close>

theorem make_frame_past_last_fragment:
  assumes "current_clip self = Some c"
    and "Suc (clip self) = length (paths self)"
    and "m_duration (media c) < t - pos self"
  shows "make_frame decode net self t w =
    Some ((Inl IndexError,
           self\<lparr>pos := pos self + m_duration (media c), clip := clip self + 1\<rparr>),
          emit (Remove (filename c)) (emit (CloseClip (filename c)) w))"
  using assms by (simp add: make_frame_def)

theorem make_frame_past_last_fragment_witness:
  "make_frame sample_decode net_echo sample_downloader_last 7.1 world0 =
    Some ((Inl IndexError, sample_downloader_last\<lparr>pos := 7, clip := 3\<rparr>),
          \<lparr>requests = 0, tmp_names = 0, events = [CloseClip 5, Remove 5]\<rparr>)"
proof -
  have "current_clip sample_downloader_last = Some \<lparr>filename = 5, media = sample_media ''c'' 1.5\<rparr>"
    and "Suc (clip sample_downloader_last) = length (paths sample_downloader_last)"
    and "m_duration (media \<lparr>filename = 5, media = sample_media ''c'' 1.5\<rparr>)
      < 7.1 - pos sample_downloader_last"
    by (simp_all add: sample_downloader_last_def sample_downloader_def sample_media_def)
  from make_frame_past_last_fragment [OF this, of sample_decode net_echo world0]
  show ?thesis
    by (simp add: sample_downloader_last_def sample_downloader_def sample_media_def
        world0_def emit_def)
qed

text \<open>A clip that \<^verbatim>\<open>_get_next_clip\<close> returns holds what the network has sent for the URL.\<close>

lemma get_next_clip_media:
  assumes "get_next_clip decode net self url w = Some ((Inr c, self'), w')"
  shows "\<exists>k r. net k url no_kwargs = Ok r \<and> decode (resp_content r) = Inr (media c)"
proof -
  let ?w1 = "emit (Mktemp (tmp_names w) ''.mp4'') (w\<lparr>tmp_names := Suc (tmp_names w)\<rparr>)"
  from assms obtain r w2 where
    got: "trying_get net url no_kwargs (d_max_attempts self) (d_wait self) ?w1
      = Some (Inr (Some r), w2)"
    and "decode (resp_content r) = Inr (media c)"
    by (auto simp: get_next_clip_def mktemp_def split: option.splits sum.splits prod.splits)
  with trying_get_effect(3) [OF got refl] show ?thesis
    by blast
qed



subsection \<open>A run of frame requests returns\<close>

text \<open>
  With a number of attempts that is not negative the loop ends, whatever the network
  does: by induction on that number.
\<close>

lemma trying_get_loop_returns:
  "\<exists>y. trying_get_loop net url kw m wait (int n) w = Some y"
proof (induction n arbitrary: w)
  case 0
  show ?case
    by (subst trying_get_loop.simps) simp
next
  case (Suc n)
  show ?case
  proof (cases "net (requests w) url kw")
    case (Ok r)
    then show ?thesis
      by (subst trying_get_loop.simps) simp
  next
    case (Fails e)
    show ?thesis
    proof (cases "is_connection_error e \<and> n \<noteq> 0 \<and> \<not> wait < 0")
      case False
      with Fails show ?thesis
        by (subst trying_get_loop.simps) (auto simp: Let_def)
    next
      case True
      let ?w = "emit (Sleep wait) (emit (Warn url (m - int n) m wait) (issue_get url w))"
      from Suc.IH [of ?w] obtain y where "trying_get_loop net url kw m wait (int n) ?w = Some y"
        by blast
      with Fails True show ?thesis
        by (subst trying_get_loop.simps) (simp add: Let_def)
    qed
  qed
qed

lemma trying_get_returns:
  assumes "0 \<le> max_attempts"
  shows "\<exists>y. trying_get net url kw max_attempts wait w = Some y"
proof -
  from assms obtain n where "max_attempts = int n"
    by (metis nat_0_le)
  with trying_get_loop_returns [of net url kw max_attempts wait n w] show ?thesis
    by (simp add: trying_get_def)
qed

lemma get_next_clip_returns:
  assumes "0 \<le> d_max_attempts self"
  shows "\<exists>y. get_next_clip decode net self url w = Some y"
proof -
  let ?w1 = "emit (Mktemp (tmp_names w) ''.mp4'') (w\<lparr>tmp_names := Suc (tmp_names w)\<rparr>)"
  from trying_get_returns [OF assms] obtain y where
    "trying_get net url no_kwargs (d_max_attempts self) (d_wait self) ?w1 = Some y"
    by blast
  then show ?thesis
    by (cases y) (auto simp: get_next_clip_def mktemp_def split: sum.splits option.splits)
qed

lemma make_frame_returns:
  assumes "0 \<le> d_max_attempts self"
  shows "\<exists>out self' w'. make_frame decode net self t w = Some ((out, self'), w')
    \<and> d_max_attempts self' = d_max_attempts self"
proof (cases "current_clip self")
  case None
  then show ?thesis
    by (simp add: make_frame_def)
next
  case (Some c)
  let ?self1 = "self\<lparr>pos := pos self + m_duration (media c), clip := clip self + 1\<rparr>"
  let ?w1 = "emit (Remove (filename c)) (emit (CloseClip (filename c)) w)"
  show ?thesis
  proof (cases "m_duration (media c) < t - pos self \<and> Suc (clip self) < length (paths self)")
    case False
    with Some show ?thesis
      by (auto simp: make_frame_def)
  next
    case True
    have "0 \<le> d_max_attempts ?self1"
      using assms by simp
    from get_next_clip_returns [OF this] obtain r2 self2 w2 where
      got: "get_next_clip decode net ?self1 (paths self ! Suc (clip self)) ?w1
        = Some ((r2, self2), w2)"
      by (metis prod.exhaust)
    from get_next_clip_frame [OF got] have "d_max_attempts self2 = d_max_attempts self"
      by auto
    with Some True got show ?thesis
      by (cases r2) (simp_all add: make_frame_def)
  qed
qed

lemma request_frames_returns:
  assumes "0 \<le> d_max_attempts self"
  shows "\<exists>outs w'. request_frames decode net self ts w = Some (outs, w')"
  using assms
proof (induction ts arbitrary: self w)
  case Nil
  show ?case by simp
next
  case (Cons t ts)
  from make_frame_returns [OF Cons.prems] obtain out self1 w1 where
    first: "make_frame decode net self t w = Some ((out, self1), w1)"
    and same: "d_max_attempts self1 = d_max_attempts self"
    by blast
  show ?case
  proof (cases out)
    case (Inl e)
    with first show ?thesis
      by simp
  next
    case (Inr f)
    from Cons.IH [of self1 w1] Cons.prems same obtain rest w' where
      "request_frames decode net self1 ts w1 = Some (rest, w')"
      by auto
    with first Inr show ?thesis
      by simp
  qed
qed



lemma sample_run:
  "request_frames sample_decode net_echo sample_downloader [0, 2, 4, 7.1] sample_world \<noteq> None"
  by (simp add: make_frame_def get_next_clip_def mktemp_def trying_get_def
      trying_get_loop.simps issue_get_def emit_def net_echo_def empty_page_def
      sample_decode_def sample_media_def sample_downloader_def sample_world_def)


lemma held_append:
  "held_clips clips (xs @ ys) = held_clips (held_clips clips xs) ys"
  "held_files files (xs @ ys) = held_files (held_files files xs) ys"
  by (simp_all add: held_clips_def held_files_def)

lemma held_Cons:
  "held_clips clips (ev # evs) = held_clips (clips_after ev clips) evs"
  "held_files files (ev # evs) = held_files (files_after ev files) evs"
  "held_clips clips [] = clips"
  "held_files files [] = files"
  by (simp_all add: held_clips_def held_files_def)

lemma one_resident_append:
  "one_resident clips files (xs @ ys) \<longleftrightarrow>
     one_resident clips files xs \<and> one_resident (held_clips clips xs) (held_files files xs) ys"
  by (induction xs arbitrary: clips files) (auto simp: held_Cons)

lemma request_events_hold:
  "list_all request_event evs \<Longrightarrow> held_clips clips evs = clips \<and> held_files files evs = files"
proof (induction evs)
  case Nil
  then show ?case by (simp add: held_Cons)
next
  case (Cons ev evs)
  then show ?case by (cases ev) (simp_all add: held_Cons)
qed

lemma request_events_free:
  "list_all request_event evs \<Longrightarrow> one_resident [] [] evs"
proof (induction evs)
  case Nil
  then show ?case by simp
next
  case (Cons ev evs)
  then show ?case by (cases ev) simp_all
qed

text \<open>
  The log of \<^verbatim>\<open>_get_next_clip\<close>: a temporary name, request events, and then what has been
  done with the response.
\<close>

lemma get_next_clip_events:
  assumes "get_next_clip decode net self url w = Some ((res, self'), w')"
  shows "\<exists>evs rest. events w' = events w @ Mktemp (tmp_names w) ''.mp4'' # evs @ rest
    \<and> list_all request_event evs
    \<and> (case res of
          Inr c \<Rightarrow> filename c = tmp_names w
            \<and> (\<exists>n k. rest = [WriteFile (tmp_names w), OpenClip (tmp_names w), Mktemp n ''.wav'',
                               WriteAudio n, AppendAudio k, RemoveAudio n])
        | Inl e \<Rightarrow> rest = [] \<or> rest = [WriteFile (tmp_names w)]
            \<or> (\<exists>n. rest = [WriteFile (tmp_names w), OpenClip (tmp_names w), Mktemp n ''.wav'',
                               RemoveAudio n]))"
proof -
  let ?w1 = "emit (Mktemp (tmp_names w) ''.mp4'') (w\<lparr>tmp_names := Suc (tmp_names w)\<rparr>)"
  from assms obtain got w2 where
    got: "trying_get net url no_kwargs (d_max_attempts self) (d_wait self) ?w1 = Some (got, w2)"
    by (auto simp: get_next_clip_def mktemp_def split: option.splits)
  from trying_get_effect(2) [OF got] obtain evs where
    evs: "events w2 = events w @ Mktemp (tmp_names w) ''.mp4'' # evs" "list_all request_event evs"
    by (auto simp: emit_simps)
  have "\<exists>rest. events w' = events w2 @ rest
    \<and> (case res of
          Inr c \<Rightarrow> filename c = tmp_names w
            \<and> (\<exists>n k. rest = [WriteFile (tmp_names w), OpenClip (tmp_names w), Mktemp n ''.wav'',
                               WriteAudio n, AppendAudio k, RemoveAudio n])
        | Inl e \<Rightarrow> rest = [] \<or> rest = [WriteFile (tmp_names w)]
            \<or> (\<exists>n. rest = [WriteFile (tmp_names w), OpenClip (tmp_names w), Mktemp n ''.wav'',
                               RemoveAudio n]))"
    using assms got
    by (auto simp: get_next_clip_def mktemp_def emit_simps
        split: option.splits sum.splits prod.splits)
  with evs show ?thesis
    by auto
qed


text \<open>Started with nothing held, \<^verbatim>\<open>_get_next_clip\<close> ends with its clip held, if it returns one.\<close>

lemma get_next_clip_resident:
  assumes ret: "get_next_clip decode net self url w = Some ((res, self'), w')"
    and log: "one_resident [] [] (events w)"
    and free: "held_clips [] (events w) = []" "held_files [] (events w) = []"
  shows "one_resident [] [] (events w')"
    and "res = Inr c \<Longrightarrow>
      held_clips [] (events w') = [filename c] \<and> held_files [] (events w') = [filename c]"
proof -
  from get_next_clip_events [OF ret] obtain evs rest where
    events: "events w' = events w @ Mktemp (tmp_names w) ''.mp4'' # evs @ rest"
    and evs: "list_all request_event evs"
    and rest: "case res of
          Inr c \<Rightarrow> filename c = tmp_names w
            \<and> (\<exists>n k. rest = [WriteFile (tmp_names w), OpenClip (tmp_names w), Mktemp n ''.wav'',
                               WriteAudio n, AppendAudio k, RemoveAudio n])
        | Inl e \<Rightarrow> rest = [] \<or> rest = [WriteFile (tmp_names w)]
            \<or> (\<exists>n. rest = [WriteFile (tmp_names w), OpenClip (tmp_names w), Mktemp n ''.wav'',
                               RemoveAudio n])"
    by blast
  note hold = request_events_hold [OF evs, of "[]" "[]"]
  have rest_ok: "one_resident [] [] rest"
    using rest by (cases res) auto
  show "one_resident [] [] (events w')"
    using log free hold request_events_free [OF evs] rest_ok
    by (simp add: events one_resident_append held_Cons)
  show "held_clips [] (events w') = [filename c] \<and> held_files [] (events w') = [filename c]"
    if "res = Inr c"
    using that rest free hold
    by (auto simp: events held_append held_Cons)
qed

text \<open>One request keeps the log as it should be, and after a frame one clip is held.\<close>

lemma make_frame_resident:
  assumes res: "resident self w"
    and ret: "make_frame decode net self t w = Some ((out, self'), w')"
  shows "one_resident [] [] (events w')"
    and "out = Inr f \<Longrightarrow> resident self' w'"
proof -
  from res obtain c where c: "current_clip self = Some c"
    and log: "one_resident [] [] (events w)"
    and held: "held_clips [] (events w) = [filename c]" "held_files [] (events w) = [filename c]"
    by (auto simp: resident_def)
  let ?self1 = "self\<lparr>pos := pos self + m_duration (media c), clip := clip self + 1\<rparr>"
  let ?w1 = "emit (Remove (filename c)) (emit (CloseClip (filename c)) w)"
  have w1: "events ?w1 = events w @ [CloseClip (filename c), Remove (filename c)]"
    by (simp add: emit_simps)
  have log1: "one_resident [] [] (events ?w1)"
    and free1: "held_clips [] (events ?w1) = []" "held_files [] (events ?w1) = []"
    using log held by (simp_all add: w1 one_resident_append held_append held_Cons)
  have both: "one_resident [] [] (events w') \<and> (\<forall>f. out = Inr f \<longrightarrow> resident self' w')"
  proof (cases "m_duration (media c) < t - pos self")
    case False
    with ret c have "self' = self" "w' = w"
      by (simp_all add: make_frame_def)
    with res log show ?thesis
      by simp
  next
    case True
    show ?thesis
    proof (cases "Suc (clip self) < length (paths self)")
      case False
      with ret c True have "w' = ?w1" "out = Inl IndexError"
        by (simp_all add: make_frame_def)
      with log1 show ?thesis
        by simp
    next
      case True
      with ret c \<open>m_duration (media c) < t - pos self\<close>
      obtain r2 self2 where
        got: "get_next_clip decode net ?self1 (paths self ! Suc (clip self)) ?w1
          = Some ((r2, self2), w')"
        and out: "(\<exists>e. r2 = Inl e \<and> out = Inl e)
          \<or> (\<exists>c'. r2 = Inr c' \<and> self' = self2\<lparr>current_clip := Some c'\<rparr>)"
        by (auto simp: make_frame_def split: option.splits sum.splits prod.splits)
      note next_clip = get_next_clip_resident [OF got log1 free1]
      from out show ?thesis
      proof (elim disjE exE conjE)
        fix e
        assume "r2 = Inl e" "out = Inl e"
        with next_clip(1) show ?thesis
          by simp
      next
        fix c'
        assume "r2 = Inr c'" and "self' = self2\<lparr>current_clip := Some c'\<rparr>"
        with next_clip(1) next_clip(2) [of c'] show ?thesis
          by (simp add: resident_def)
      qed
    qed
  qed
  then show "one_resident [] [] (events w')" "out = Inr f \<Longrightarrow> resident self' w'"
    by simp_all
qed

text \<open>The log of a run that returns is as it should be.\<close>

lemma request_frames_resident_run:
  assumes "resident self w"
    and "request_frames decode net self ts w = Some (outs, w')"
  shows "one_resident [] [] (events w')"
  using assms
proof (induction ts arbitrary: self w outs)
  case Nil
  then show ?case by (simp add: resident_def)
next
  case (Cons t ts)
  from Cons.prems(2) obtain out self1 w1 where
    first: "make_frame decode net self t w = Some ((out, self1), w1)"
    by (auto split: option.splits)
  note step = make_frame_resident [OF Cons.prems(1) first]
  show ?case
  proof (cases out)
    case (Inl e)
    with Cons.prems(2) first have "w' = w1"
      by simp
    with step(1) show ?thesis
      by simp
  next
    case (Inr f)
    with Cons.prems(2) first obtain rest where
      "request_frames decode net self1 ts w1 = Some (rest, w')"
      by (auto split: option.splits)
    with Cons.IH [OF step(2) [OF Inr]] show ?thesis
      by blast
  qed
qed

text \<open>
  C6. From an object whose clip and fragment file are the only ones held, with a log
  that is as it should be so far, a run of frame requests returns when the number of
  attempts of the object is not negative; and every run that returns leaves a log in
  which, event by event, at most one clip is open and at most one fragment file exists,
  and in which no request is sent while a clip is open or a fragment file exists: the
  resident fragment is closed and its file removed before the next one is fetched.
\<close>

theorem request_frames_one_resident:
  assumes "resident self w"
  shows "(0 \<le> d_max_attempts self \<longrightarrow>
      (\<exists>outs w'. request_frames decode net self ts w = Some (outs, w')))
    \<and> (\<forall>outs w'. request_frames decode net self ts w = Some (outs, w') \<longrightarrow>
      one_resident [] [] (events w'))"
proof (intro conjI impI allI)
  assume "0 \<le> d_max_attempts self"
  then show "\<exists>outs w'. request_frames decode net self ts w = Some (outs, w')"
    by (rule request_frames_returns)
next
  fix outs w'
  assume "request_frames decode net self ts w = Some (outs, w')"
  with assms show "one_resident [] [] (events w')"
    by (rule request_frames_resident_run)
qed

lemma sample_resident: "resident sample_downloader sample_world"
  by (simp add: resident_def sample_downloader_def sample_world_def held_Cons)

theorem request_frames_one_resident_witness:
  "one_resident [] []
     (events sample_world @
        [CloseClip 1, Remove 1, Mktemp 3 ''.mp4'', Get ''b'', WriteFile 3, OpenClip 3,
         Mktemp 4 ''.wav'', WriteAudio 4, AppendAudio 0, RemoveAudio 4])"
proof -
  have "request_frames sample_decode net_echo sample_downloader [0, 6] sample_world =
     Some ([(Inr (''a'', 0), sample_downloader),
            (Inr (''b'', 4),
             sample_downloader\<lparr>pos := 2, clip := 1,
               current_clip := Some \<lparr>filename = 3, media = sample_media ''b'' 3.5\<rparr>\<rparr>)],
           \<lparr>requests = 2, tmp_names = 5,
            events = events sample_world @
              [CloseClip 1, Remove 1, Mktemp 3 ''.mp4'', Get ''b'', WriteFile 3, OpenClip 3,
               Mktemp 4 ''.wav'', WriteAudio 4, AppendAudio 0, RemoveAudio 4]\<rparr>)"
    by (simp add: make_frame_def get_next_clip_def mktemp_def trying_get_def
        trying_get_loop.simps issue_get_def emit_def net_echo_def empty_page_def
        sample_decode_def sample_media_def sample_downloader_def sample_world_def)
  with request_frames_one_resident [OF sample_resident, of sample_decode net_echo "[0, 6]"]
  show ?thesis
    by simp
qed

section \<open>Properties of the constructor\<close>

lemma only_requests_refl: "only_requests w w"
  by (simp add: only_requests_def)

lemma only_requests_trans:
  assumes "only_requests w w1" and "only_requests w1 w2"
  shows "only_requests w w2"
proof -
  from assms obtain evs1 evs2 where
    "events w1 = events w @ evs1" "list_all request_event evs1"
    "events w2 = events w1 @ evs2" "list_all request_event evs2"
    by (auto simp: only_requests_def)
  then have "events w2 = events w @ (evs1 @ evs2)" "list_all request_event (evs1 @ evs2)"
    by simp_all
  with assms show ?thesis
    unfolding only_requests_def by (metis)
qed

lemma trying_get_only_requests:
  "trying_get net url kw m wait w = Some (res, w') \<Longrightarrow> only_requests w w'"
  using trying_get_effect(1,2) [of net url kw m wait w res w']
  by (simp add: only_requests_def)

lemma get_quality_only_requests:
  assumes "get_quality int_of net sma sw url quality w = Some (res, w')"
  shows "only_requests w w'"
proof -
  from assms obtain got where
    "trying_get net url no_kwargs sma sw w = Some (got, w')"
    by (auto simp: get_quality_def split: option.splits sum.splits prod.splits)
  then show ?thesis
    by (rule trying_get_only_requests)
qed

lemma get_manifest_only_requests:
  assumes ret: "get_manifest int_of mp net sma sw url quality ma wt w = Some y"
  shows "only_requests w (snd y)"
proof (rule get_manifest.raw_induct
    [where P = "\<lambda>int_of mp net sma sw url quality ma wt w y. only_requests w (snd y)", OF _ ret])
  fix f :: "(string \<Rightarrow> int option) \<Rightarrow> (string \<Rightarrow> error + string) \<Rightarrow> network \<Rightarrow> int \<Rightarrow> int
      \<Rightarrow> string \<Rightarrow> int \<Rightarrow> int \<Rightarrow> int \<Rightarrow> world \<Rightarrow> ((error + string) \<times> world) option"
  fix int_of mp net sma sw url quality ma wt w y
  assume IH: "\<And>int_of mp net sma sw url quality ma wt w y.
      f int_of mp net sma sw url quality ma wt w = Some y \<Longrightarrow> only_requests w (snd y)"
  assume eq: "(if contains url ''/Manifest'' then Some (Inr url, w)
      else if contains url ''/manifest''
           then get_quality int_of net sma sw url quality w
           else case trying_get net url no_kwargs MAX_ATTEMPTS WAIT w of
                None \<Rightarrow> None | Some (Inl e, w1) \<Rightarrow> Some (Inl e, w1)
                | Some (Inr None, w1) \<Rightarrow> Some (Inl AttributeError, w1)
                | Some (Inr (Some r), w1) \<Rightarrow>
                    case filter (\<lambda>c. cookie_name c = ''JSESSIONID'') (resp_cookies r) of
                    [] \<Rightarrow> Some (Inl IndexError, w1)
                    | cookie # x \<Rightarrow>
                        case get_video_id r of Inl e \<Rightarrow> Some (Inl e, w1)
                        | Inr video_id \<Rightarrow>
                            case trying_get net (api_url video_id) (api_kwargs cookie r) ma wt w1 of
                            None \<Rightarrow> None
                            | Some (Inl e, w2) \<Rightarrow> Some (Inl e, w2)
                            | Some (Inr None, w2) \<Rightarrow> Some (Inl AttributeError, w2)
                            | Some (Inr (Some r2), w2) \<Rightarrow>
                                case mp (resp_content r2) of
                                Inl e \<Rightarrow> Some (Inl e, w2)
                                | Inr url' \<Rightarrow> f int_of mp net sma sw url' quality ma wt w2) =
     Some y"
  show "only_requests w (snd y)"
  proof (cases "contains url ''/Manifest''")
    case True
    with eq show ?thesis
      by (auto simp: only_requests_refl)
  next
    case False
    note not_fragments = this
    show ?thesis
    proof (cases "contains url ''/manifest''")
      case True
      with not_fragments eq have "get_quality int_of net sma sw url quality w = Some (fst y, snd y)"
        by simp
      then show ?thesis
        by (rule get_quality_only_requests)
    next
      case False
      with not_fragments eq obtain got w1 where
        page: "trying_get net url no_kwargs MAX_ATTEMPTS WAIT w = Some (got, w1)"
        by (auto split: option.splits)
      note w1 = trying_get_only_requests [OF page]
      from not_fragments False eq page
      have "snd y = w1
        \<or> (\<exists>video_id cookie r got2 w2.
              trying_get net (api_url video_id) (api_kwargs cookie r) ma wt w1 = Some (got2, w2)
              \<and> (snd y = w2 \<or> (\<exists>url'. f int_of mp net sma sw url' quality ma wt w2 = Some y)))"
        by (fastforce split: option.splits sum.splits prod.splits list.splits)
      then consider (here) "snd y = w1"
        | (api) video_id cookie r got2 w2 where
          "trying_get net (api_url video_id) (api_kwargs cookie r) ma wt w1 = Some (got2, w2)"
          "snd y = w2 \<or> (\<exists>url'. f int_of mp net sma sw url' quality ma wt w2 = Some y)"
        by blast
      then show ?thesis
      proof cases
        case here
        with w1 show ?thesis by simp
      next
        case api
        note w2 = only_requests_trans [OF w1 trying_get_only_requests [OF api(1)]]
        from api(2) show ?thesis
        proof
          assume "snd y = w2"
          with w2 show ?thesis by simp
        next
          assume "\<exists>url'. f int_of mp net sma sw url' quality ma wt w2 = Some y"
          then obtain url' where "f int_of mp net sma sw url' quality ma wt w2 = Some y"
            by blast
          from only_requests_trans [OF w2 IH [OF this]] show ?thesis .
        qed
      qed
    qed
  qed
qed


lemma only_requests_free:
  assumes "only_requests w w'"
    and "one_resident [] [] (events w)"
    and "held_clips [] (events w) = []" "held_files [] (events w) = []"
  shows "one_resident [] [] (events w')"
    and "held_clips [] (events w') = []" "held_files [] (events w') = []"
proof -
  from assms(1) obtain evs where evs: "events w' = events w @ evs" "list_all request_event evs"
    by (auto simp: only_requests_def)
  note hold = request_events_hold [OF evs(2), of "[]" "[]"]
  show "one_resident [] [] (events w')"
    using assms(2-) request_events_free [OF evs(2)] by (simp add: evs(1) one_resident_append)
  show "held_clips [] (events w') = []" "held_files [] (events w') = []"
    using assms(3,4) hold by (simp_all add: evs(1) held_append)
qed

text \<open>
  The constructor, when it returns an object: the object is at the first fragment with
  the start time 0 and the caller's retry policy, and the clip of the first fragment and
  its file are all that is held.
\<close>

lemma Downloader_init_resident:
  assumes ret: "Downloader_init int_of float_of mp decode net url ma wt limit quality w
      = Some (Inr self, w')"
    and log: "one_resident [] [] (events w)"
    and free: "held_clips [] (events w) = []" "held_files [] (events w) = []"
  shows "resident self w'"
    and "clip self = 0 \<and> pos self = 0 \<and> d_max_attempts self = ma \<and> d_wait self = wt"
    and "serves net decode (paths self) ms \<Longrightarrow> at_fragment ms self"
proof -
  from ret obtain manifest_url w1 where
    resolved: "get_manifest int_of mp net ma wt url quality ma wt w = Some (Inr manifest_url, w1)"
    by (auto simp: Downloader_init_def split: option.splits sum.splits prod.splits)
  from ret resolved obtain r w2 where
    fetched: "trying_get net manifest_url no_kwargs ma wt w1 = Some (Inr (Some r), w2)"
    by (auto simp: Downloader_init_def split: option.splits sum.splits prod.splits)
  from ret resolved fetched obtain cat where
    cat: "read_catalog float_of manifest_url (resp_text r) limit = Inr cat"
    by (auto simp: Downloader_init_def split: option.splits sum.splits prod.splits)
  let ?w3 = "emit (Mktemp (tmp_names w2) ''.wav'') (w2\<lparr>tmp_names := Suc (tmp_names w2)\<rparr>)"
  let ?self0 = "\<lparr>d_max_attempts = ma, d_wait = wt, paths = cat_paths cat,
      times_list = cat_times cat, duration = cat_duration cat, pos = 0, clip = 0,
      wav_file = tmp_names w2, audio_file = \<lparr>wav_params = None, wav_frames = []\<rparr>,
      current_clip = None\<rparr> :: 'a downloader"
  from ret resolved fetched cat obtain c self1 where
    some: "0 < length (cat_paths cat)"
    and got: "get_next_clip decode net ?self0 (cat_paths cat ! 0) ?w3 = Some ((Inr c, self1), w')"
    and self: "self = self1\<lparr>current_clip := Some c\<rparr>"
    by (auto simp: Downloader_init_def mktemp_def Let_def
        split: option.splits sum.splits prod.splits if_splits)
  from get_next_clip_frame [OF got] obtain a where self1: "self1 = ?self0\<lparr>audio_file := a\<rparr>"
    by blast
  have "only_requests w w2"
    using get_manifest_only_requests [OF resolved] trying_get_only_requests [OF fetched]
    by (auto intro: only_requests_trans)
  note w2 = only_requests_free [OF this log free]
  have w3: "events ?w3 = events w2 @ [Mktemp (tmp_names w2) ''.wav'']"
    by (simp add: emit_simps)
  have "one_resident [] [] (events ?w3)"
    and "held_clips [] (events ?w3) = []" "held_files [] (events ?w3) = []"
    using w2 by (simp_all add: w3 one_resident_append held_append held_Cons)
  note first = get_next_clip_resident [OF got this]
  from first(1) first(2) [of c] self show "resident self w'"
    by (simp add: resident_def)
  from self self1 show "clip self = 0 \<and> pos self = 0 \<and> d_max_attempts self = ma \<and> d_wait self = wt"
    by simp
  show "at_fragment ms self" if serves: "serves net decode (paths self) ms"
  proof -
    from get_next_clip_media [OF got] obtain k r'
      where "net k (cat_paths cat ! 0) no_kwargs = Ok r'" "decode (resp_content r') = Inr (media c)"
      by blast
    moreover have "paths self = cat_paths cat"
      using self self1 by simp
    ultimately have "media c = ms ! 0" "0 < length ms"
      using serves some unfolding serves_def by (metis sum.inject(2), simp)
    with self self1 show ?thesis
      by (simp add: at_fragment_def start_time_def)
  qed
qed


text \<open>The constructor on the sample stream, from the manifest to the first clip.\<close>

lemma sample_catalog:
  "read_catalog decimal_real fragments_url three_fragments 0 =
     Inr \<lparr>cat_paths = fragment_paths fragments_url three_fragments,
          cat_times = [0, 2, 3.5, 1.5], cat_duration = 7\<rparr>"
  using three_fragments_seconds
  by (simp add: read_catalog_def extinf_lines_def fragment_paths_def Let_def py_sum_def)

lemma sample_download_starts:
  "Downloader_init decimal_int decimal_real body_is_playlist sample_decode net_stream
       fragments_url 10 10 0 DEF_QUALITY world0 =
     Some (Inr \<lparr>d_max_attempts = 10, d_wait = 10,
                paths = fragment_paths fragments_url three_fragments,
                times_list = [0, 2, 3.5, 1.5], duration = 7, pos = 0, clip = 0, wav_file = 0,
                audio_file = \<lparr>wav_params = Some 2, wav_frames = []\<rparr>,
                current_clip = Some \<lparr>filename = 1, media = sample_media ''a'' 2\<rparr>\<rparr>,
           \<lparr>requests = 2, tmp_names = 3,
            events = [Get fragments_url, Mktemp 0 ''.wav'', Mktemp 1 ''.mp4'', Get fragment_a,
                      WriteFile 1, OpenClip 1, Mktemp 2 ''.wav'', WriteAudio 2, AppendAudio 0,
                      RemoveAudio 2]\<rparr>)"
proof -
  have terminal: "contains fragments_url ''/Manifest''"
    by (simp add: fragments_url_def)
  have first: "fragment_paths fragments_url three_fragments ! 0 = fragment_a"
    "fragment_paths fragments_url three_fragments \<noteq> []"
    by (simp_all add: three_fragments_paths fragment_a_def)
  have other: "fragment_a \<noteq> fragments_url"
    by (simp add: fragment_a_def fragments_url_def)
  show ?thesis
    by (simp add: Downloader_init_def get_manifest.simps terminal trying_get_def
        trying_get_loop.simps net_stream_def empty_page_def sample_catalog first other
        get_next_clip_def mktemp_def issue_get_def emit_def sample_decode_def sample_media_def
        world0_def Let_def)
qed

end
